theory Spec2Isabelle
  imports Main "HOL-Library.Char_ord" "HOL-Library.List_Lexorder"
begin

section \<open>Data model of \<^verbatim>\<open>torchsnapshot/snapshot.py\<close>\<close>

text \<open>
  Strings are Python \<^verbatim>\<open>str\<close> values; \<^verbatim>\<open>sorted\<close> on strings is the
  lexicographic order on code points, which is the order \<^theory_text>\<open>Char_ord\<close> and
  \<^theory_text>\<open>List_Lexorder\<close> put on \<^typ>\<open>string\<close>.
\<close>

type_synonym key = string
type_synonym path = string

text \<open>
  The values of an \<^verbatim>\<open>app_state\<close>, told apart by the \<^verbatim>\<open>isinstance\<close> tests the
  source makes: \<^verbatim>\<open>Stateful\<close>, \<^verbatim>\<open>RNGState\<close> and \<^verbatim>\<open>DDP\<close>. A \<^verbatim>\<open>DDP\<close> module
  carries \<^verbatim>\<open>parameters_to_ignore\<close> and the names that \<^verbatim>\<open>named_parameters()\<close>
  chained with \<^verbatim>\<open>named_buffers()\<close> yields.
\<close>

datatype component =
    NotStateful
  | PlainStateful
  | RNGState
  | DDP (parameters_to_ignore: "string list") (named_parameters_and_buffers: "string list")

fun isinstance_Stateful :: "component \<Rightarrow> bool" where
  "isinstance_Stateful NotStateful = False"
| "isinstance_Stateful PlainStateful = True"
| "isinstance_Stateful RNGState = True"
| "isinstance_Stateful (DDP ign names) = True"

fun isinstance_RNGState :: "component \<Rightarrow> bool" where
  "isinstance_RNGState RNGState = True"
| "isinstance_RNGState NotStateful = False"
| "isinstance_RNGState PlainStateful = False"
| "isinstance_RNGState (DDP ign names) = False"

text \<open>
  A Python \<^verbatim>\<open>dict\<close> is an association list in insertion order whose keys are distinct.
\<close>

type_synonym app_state = "(key \<times> component) list"

definition dict_keys :: "('k \<times> 'v) list \<Rightarrow> 'k list" where
  "dict_keys d = map fst d"

definition dict_del :: "('k \<times> 'v) list \<Rightarrow> 'k \<Rightarrow> ('k \<times> 'v) list" where
  "dict_del d k = filter (\<lambda>(k', v). k' \<noteq> k) d"

text \<open>
  Exceptions. The first four are the \<^verbatim>\<open>raise\<close> statements of the source; \<open>ValueError\<close> is
  what the tuple unpacking and \<^verbatim>\<open>int(rank_str)\<close> of \<^verbatim>\<open>read_object\<close> raise;
  \<open>TypeError_intersection\<close> is \<^verbatim>\<open>set.intersection()\<close> called with no argument;
  \<open>External\<close> is an exception that comes out of a call into a collaborator that is not part
  of this file (storage plug-in, scheduler, store barrier), with its message.
\<close>

datatype exn =
    TypeError_not_Stateful key
  | RuntimeError_multiple_RNGState "key list"
  | RuntimeError_path_not_in_manifest path
  | RuntimeError_async_take exn
  | ValueError
  | TypeError_intersection
  | External string

datatype warning =
    PathDiffers nat path path
  | ReplicatedDiffers nat
  | ObjOutNotInPlace
  | AsyncTakeException exn

text \<open>
  What a rank does that is visible outside the function: calls into the event loop, the
  storage plug-in, the process group, the store barrier, the scheduler, the logger and the
  application's \<^verbatim>\<open>state_dict\<close> / \<^verbatim>\<open>load_state_dict\<close>.
\<close>

datatype event =
    NewEventLoop
  | EventLoopClose
  | OpenStorage path
  | SyncClose
  | SyncWrite path
  | SyncRead path
  | BroadcastObjectList
  | AllGatherObject
  | Barrier
  | StateDict key
  | LoadStateDict key
  | PartitionWriteReqs
  | GetProcessMemoryBudget
  | SyncExecuteWriteReqs
  | SyncExecuteReadReqs
  | SyncComplete
  | Arrive
  | Depart
  | ReportError exn
  | GetOrCreateStore
  | LogWarning warning

type_synonym rng_state = "nat list"

datatype entry = PrimitiveEntry string | StoredEntry string

datatype obj = PrimitiveValue string | ReadFromStorage string

record snapshot_metadata =
  version :: string
  world_size :: nat
  manifest :: "(path \<times> entry) list"

text \<open>
  The state a call runs in: the trace of events so far, the state of the random number
  generators, and the \<^verbatim>\<open>_metadata\<close> attribute of the \<^verbatim>\<open>Snapshot\<close> object a method is
  called on.
\<close>

record world =
  trace :: "event list"
  rng :: rng_state
  cached_metadata :: "snapshot_metadata option"

text \<open>
  What the collaborators that are not part of this file do. \<open>failure\<close> gives the message
  of the exception an external call raises, for the calls with a documented failure mode
  (\<^verbatim>\<open>sync_complete\<close> re-raises a write failure, the store barrier's \<^verbatim>\<open>arrive\<close> and
  \<^verbatim>\<open>depart\<close> time out or abort, storage reads and writes fail); the other external calls
  (\<^verbatim>\<open>report_error\<close>, \<^verbatim>\<open>sync_close\<close>, \<^verbatim>\<open>close\<close>, the collectives, the logger) return
  normally. \<open>state_dict_effect\<close> and \<open>load_state_dict_effect\<close> are what the application's
  \<^verbatim>\<open>state_dict()\<close> and \<^verbatim>\<open>load_state_dict()\<close> of the component under a key do to the
  random number generators. \<open>stored_metadata\<close> is the document the storage holds under
  \<^verbatim>\<open>.snapshot_metadata\<close>, \<open>stored_rng\<close> is the RNG state dict that reading the
  snapshot yields (\<^verbatim>\<open>flatten\<close>, \<^verbatim>\<open>prepare_read\<close>, the scheduler and \<^verbatim>\<open>inflate\<close> are
  not part of this file), and \<open>get_manifest_for_rank\<close> is the function of
  \<^verbatim>\<open>manifest_ops.py\<close>.
\<close>

record env =
  failure :: "event \<Rightarrow> string option"
  state_dict_effect :: "key \<Rightarrow> rng_state \<Rightarrow> rng_state"
  load_state_dict_effect :: "key \<Rightarrow> rng_state \<Rightarrow> rng_state"
  stored_metadata :: snapshot_metadata
  stored_rng :: rng_state
  get_manifest_for_rank :: "snapshot_metadata \<Rightarrow> int \<Rightarrow> (path \<rightharpoonup> entry) \<times> (path \<rightharpoonup> entry)"

record pg_wrapper =
  get_rank :: nat
  get_world_size :: nat

section \<open>Sequencing with exceptions\<close>

type_synonym 'a prog = "world \<Rightarrow> (exn + 'a) \<times> world"

definition return :: "'a \<Rightarrow> 'a prog" where
  "return x w = (Inr x, w)"

definition raise :: "exn \<Rightarrow> 'a prog" where
  "raise e w = (Inl e, w)"

definition bind :: "'a prog \<Rightarrow> ('a \<Rightarrow> 'b prog) \<Rightarrow> 'b prog" where
  "bind m f w = (case m w of (Inl e, w') \<Rightarrow> (Inl e, w') | (Inr x, w') \<Rightarrow> f x w')"

definition emit :: "event \<Rightarrow> unit prog" where
  "emit ev w = (Inr (), w\<lparr>trace := trace w @ [ev]\<rparr>)"

definition call :: "env \<Rightarrow> event \<Rightarrow> unit prog" where
  "call env ev w =
     (case failure env ev of
        None \<Rightarrow> (Inr (), w\<lparr>trace := trace w @ [ev]\<rparr>)
      | Some msg \<Rightarrow> (Inl (External msg), w\<lparr>trace := trace w @ [ev]\<rparr>))"

section \<open>Collectives\<close>

text \<open>
  Modelled from the spec: the collectives of \<^verbatim>\<open>PGWrapper\<close> (\<^verbatim>\<open>pg_wrapper.py\<close> is not
  among the sources). \<open>peers\<close> holds, per rank, the object that rank passes to the
  collective; the calling rank passes \<open>obj\<close>. \<^verbatim>\<open>all_gather_object\<close> gives every rank the
  ordered sequence of all ranks' objects, and \<^verbatim>\<open>broadcast_object_list\<close> gives every rank
  the source rank's object.
\<close>

definition all_gather_object :: "'a list \<Rightarrow> nat \<Rightarrow> 'a \<Rightarrow> 'a list" where
  "all_gather_object peers rank obj = peers[rank := obj]"

definition broadcast_object_list :: "'a list \<Rightarrow> nat \<Rightarrow> 'a \<Rightarrow> nat \<Rightarrow> 'a" where
  "broadcast_object_list peers rank obj src = (peers[rank := obj]) ! src"

section \<open>Static helpers of \<^verbatim>\<open>Snapshot\<close>\<close>

definition SNAPSHOT_METADATA_FNAME :: path where
  "SNAPSHOT_METADATA_FNAME = ''.snapshot_metadata''"

fun validate_app_state :: "app_state \<Rightarrow> exn + unit" where
  "validate_app_state [] = Inr ()"
| "validate_app_state ((key, value) # rest) =
     (if \<not> isinstance_Stateful value then Inl (TypeError_not_Stateful key)
      else validate_app_state rest)"

text \<open>
  \<^verbatim>\<open>_pop_rng_state\<close> deletes the key from the dict it is given; the dict after the call
  is returned with the item.
\<close>

definition pop_rng_state :: "app_state \<Rightarrow> exn + ((key \<times> component) option \<times> app_state)" where
  "pop_rng_state app_state =
     (let rng_state_items = filter (\<lambda>(key, stateful). isinstance_RNGState stateful) app_state
      in if length rng_state_items > 1
         then Inl (RuntimeError_multiple_RNGState (dict_keys rng_state_items))
         else if length rng_state_items = 1
         then (case rng_state_items of
                 (key, stateful) # _ \<Rightarrow> Inr (Some (key, stateful), dict_del app_state key)
               | [] \<Rightarrow> Inr (None, app_state))
         else Inr (None, app_state))"

definition gather_keys :: "key list list \<Rightarrow> nat \<Rightarrow> key list \<Rightarrow> key list" where
  "gather_keys peer_keys rank keys =
     (let gathered_keys = all_gather_object peer_keys rank keys
      in sorted_list_of_set (set (concat gathered_keys)))"

definition coalesce_replicated :: "string list list \<Rightarrow> exn + string set" where
  "coalesce_replicated global_replicated =
     (case map set global_replicated of
        [] \<Rightarrow> Inl TypeError_intersection
      | s # ss \<Rightarrow> Inr (fold (\<lambda>t acc. acc \<inter> t) ss s))"

text \<open>\<^verbatim>\<open>os.path.join\<close> of two components, on a POSIX system.\<close>

definition os_path_join :: "string \<Rightarrow> string \<Rightarrow> string" where
  "os_path_join a b =
     (if b \<noteq> [] \<and> hd b = CHR ''/'' then b
      else if a = [] \<or> last a = CHR ''/'' then a @ b
      else a @ ''/'' @ b)"

fun infer_replicated_loop :: "string list \<Rightarrow> app_state \<Rightarrow> string list" where
  "infer_replicated_loop new_replicated [] = new_replicated"
| "infer_replicated_loop new_replicated ((key, DDP ignored names) # rest) =
     (if set ignored = {}
      then infer_replicated_loop (new_replicated @ [os_path_join key ''**'']) rest
      else infer_replicated_loop
             (new_replicated @ map (os_path_join key) (filter (\<lambda>name. name \<notin> set ignored) names))
             rest)"
| "infer_replicated_loop new_replicated ((key, val) # rest) =
     infer_replicated_loop new_replicated rest"

definition infer_replicated :: "string list \<Rightarrow> app_state \<Rightarrow> string list" where
  "infer_replicated replicated app_state =
     (let new_replicated = replicated
      in if ''**'' \<in> set new_replicated then new_replicated
         else infer_replicated_loop new_replicated app_state)"

text \<open>
  \<^verbatim>\<open>_coalesce_path_and_replicated\<close>. \<open>peer_paths\<close> and \<open>peer_replicated\<close> hold what
  each rank passes to the broadcast and to the all-gather.
\<close>

definition coalesce_path_and_replicated ::
  "pg_wrapper \<Rightarrow> path list \<Rightarrow> string list list \<Rightarrow> path \<Rightarrow> app_state \<Rightarrow> string list
     \<Rightarrow> (path \<times> string set) prog" where
  "coalesce_path_and_replicated pg peer_paths peer_replicated path app_state replicated =
     (let rank = get_rank pg;
          obj_list0 = broadcast_object_list peer_paths rank path 0
      in bind (emit BroadcastObjectList) (\<lambda>_.
         bind (if obj_list0 \<noteq> path then emit (LogWarning (PathDiffers rank path obj_list0))
               else return ()) (\<lambda>_.
         (let replicated' = infer_replicated replicated app_state;
              global_replicated = all_gather_object peer_replicated rank replicated'
          in bind (emit AllGatherObject) (\<lambda>_.
             (case coalesce_replicated global_replicated of
                Inl e \<Rightarrow> raise e
              | Inr coalesced_replicated \<Rightarrow>
                  bind (if set replicated' \<noteq> coalesced_replicated
                        then emit (LogWarning (ReplicatedDiffers rank)) else return ()) (\<lambda>_.
                  return (obj_list0, coalesced_replicated))))))))"

section \<open>Stateful components\<close>

text \<open>
  Modelled from the spec: \<^verbatim>\<open>RNGState\<close> (\<^verbatim>\<open>rng_state.py\<close> is not among the sources).
  Its \<^verbatim>\<open>state_dict()\<close> returns the current state of the random number generators and
  its \<^verbatim>\<open>load_state_dict\<close> sets it. The state dict of any other component is not
  tracked (\<open>None\<close>); calling into it may change the generators.
\<close>

definition state_dict :: "env \<Rightarrow> key \<Rightarrow> component \<Rightarrow> rng_state option prog" where
  "state_dict env key stateful w =
     (if isinstance_RNGState stateful
      then (Inr (Some (rng w)), w\<lparr>trace := trace w @ [StateDict key]\<rparr>)
      else (Inr None,
            w\<lparr>trace := trace w @ [StateDict key], rng := state_dict_effect env key (rng w)\<rparr>))"

definition load_state_dict :: "env \<Rightarrow> key \<Rightarrow> component \<Rightarrow> rng_state option \<Rightarrow> unit prog" where
  "load_state_dict env key stateful sd w =
     (if isinstance_RNGState stateful
      then (Inr (), w\<lparr>trace := trace w @ [LoadStateDict key],
                       rng := (case sd of Some r \<Rightarrow> r | None \<Rightarrow> rng w)\<rparr>)
      else (Inr (),
            w\<lparr>trace := trace w @ [LoadStateDict key],
               rng := load_state_dict_effect env key (rng w)\<rparr>))"

section \<open>\<^verbatim>\<open>Snapshot.take\<close>\<close>

text \<open>The loop of \<^verbatim>\<open>_take_impl\<close> over the global keys.\<close>

fun capture_loop :: "env \<Rightarrow> app_state \<Rightarrow> key list \<Rightarrow> unit prog" where
  "capture_loop env app_state [] = return ()"
| "capture_loop env app_state (key # global_keys) =
     bind (case map_of app_state key of
             Some stateful \<Rightarrow> bind (state_dict env key stateful) (\<lambda>_. return ())
           | None \<Rightarrow> return ()) (\<lambda>_.
     bind (emit Barrier) (\<lambda>_.
     capture_loop env app_state global_keys))"

text \<open>
  \<^verbatim>\<open>_take_impl\<close>. The dict it works on is the copy made by \<^verbatim>\<open>app_state.copy()\<close>.
  After the RNG state is put back, the function classifies replication
  (\<^verbatim>\<open>_calculate_replicated_entries\<close>: an all-gather and a broadcast), partitions the write
  requests, gathers the manifest, and hands the write requests to the scheduler; of these
  steps the trace keeps the calls. The result is the local \<^verbatim>\<open>rng_state_dict\<close>.
\<close>

definition take_impl :: "env \<Rightarrow> pg_wrapper \<Rightarrow> key list list \<Rightarrow> app_state \<Rightarrow> rng_state option prog" where
  "take_impl env pg peer_keys app_state0 =
     (case pop_rng_state app_state0 of
        Inl e \<Rightarrow> raise e
      | Inr (rng_state_item, app_state) \<Rightarrow>
          bind (case rng_state_item of
                  Some (key, stateful) \<Rightarrow> state_dict env key stateful
                | None \<Rightarrow> return None) (\<lambda>rng_state_dict.
          bind (emit AllGatherObject) (\<lambda>_.
          bind (capture_loop env app_state
                  (gather_keys peer_keys (get_rank pg) (dict_keys app_state))) (\<lambda>_.
          bind (case rng_state_item of
                  Some (key, stateful) \<Rightarrow> load_state_dict env key stateful rng_state_dict
                | None \<Rightarrow> return ()) (\<lambda>_.
          bind (emit AllGatherObject) (\<lambda>_.
          bind (emit BroadcastObjectList) (\<lambda>_.
          bind (emit PartitionWriteReqs) (\<lambda>_.
          bind (emit AllGatherObject) (\<lambda>_.
          bind (emit GetProcessMemoryBudget) (\<lambda>_.
          bind (emit SyncExecuteWriteReqs) (\<lambda>_.
          return rng_state_dict)))))))))))"

definition write_snapshot_metadata :: "env \<Rightarrow> unit prog" where
  "write_snapshot_metadata env = call env (SyncWrite SNAPSHOT_METADATA_FNAME)"

text \<open>
  \<^verbatim>\<open>Snapshot.take\<close> at one rank. The result is the \<^verbatim>\<open>path\<close> of the \<^verbatim>\<open>Snapshot\<close> it
  returns.
\<close>

definition take ::
  "env \<Rightarrow> pg_wrapper \<Rightarrow> path list \<Rightarrow> string list list \<Rightarrow> key list list
     \<Rightarrow> path \<Rightarrow> app_state \<Rightarrow> string list \<Rightarrow> path prog" where
  "take env pg peer_paths peer_replicated peer_keys path app_state replicated =
     (case validate_app_state app_state of
        Inl e \<Rightarrow> raise e
      | Inr _ \<Rightarrow>
          bind (emit NewEventLoop) (\<lambda>_.
          bind (coalesce_path_and_replicated pg peer_paths peer_replicated path app_state replicated)
            (\<lambda>(path', coalesced_replicated).
          bind (emit (OpenStorage path')) (\<lambda>_.
          bind (take_impl env pg peer_keys app_state) (\<lambda>_.
          bind (call env SyncComplete) (\<lambda>_.
          bind (emit Barrier) (\<lambda>_.
          bind (if get_rank pg = 0 then write_snapshot_metadata env else return ()) (\<lambda>_.
          bind (emit SyncClose) (\<lambda>_.
          bind (emit EventLoopClose) (\<lambda>_.
          return path'))))))))))"

section \<open>\<^verbatim>\<open>Snapshot.restore\<close>\<close>

definition read_snapshot_metadata :: "env \<Rightarrow> snapshot_metadata prog" where
  "read_snapshot_metadata env =
     bind (call env (SyncRead SNAPSHOT_METADATA_FNAME)) (\<lambda>_. return (stored_metadata env))"

definition set_cached_metadata :: "snapshot_metadata \<Rightarrow> unit prog" where
  "set_cached_metadata md w = (Inr (), w\<lparr>cached_metadata := Some md\<rparr>)"

text \<open>The property \<^verbatim>\<open>Snapshot.metadata\<close> of the snapshot at \<open>self_path\<close>.\<close>

definition metadata :: "env \<Rightarrow> path \<Rightarrow> snapshot_metadata prog" where
  "metadata env self_path w =
     (case cached_metadata w of
        None \<Rightarrow>
          bind (emit NewEventLoop) (\<lambda>_.
          bind (emit (OpenStorage self_path)) (\<lambda>_.
          bind (read_snapshot_metadata env) (\<lambda>md.
          bind (set_cached_metadata md) (\<lambda>_.
          bind (emit SyncClose) (\<lambda>_.
          bind (emit EventLoopClose) (\<lambda>_.
          return md)))))) w
      | Some md \<Rightarrow> return md w)"

text \<open>
  \<^verbatim>\<open>_load_stateful\<close>. The state dict rebuilt from the snapshot is tracked for an
  \<^verbatim>\<open>RNGState\<close> only.
\<close>

definition load_stateful :: "env \<Rightarrow> path \<Rightarrow> key \<Rightarrow> component option \<Rightarrow> unit prog" where
  "load_stateful env self_path stateful_key stateful =
     (case stateful of
        None \<Rightarrow> return ()
      | Some s \<Rightarrow>
          bind (metadata env self_path) (\<lambda>md.
          bind (state_dict env stateful_key s) (\<lambda>_.
          bind (emit GetProcessMemoryBudget) (\<lambda>_.
          bind (call env SyncExecuteReadReqs) (\<lambda>_.
          load_state_dict env stateful_key s
            (if isinstance_RNGState s then Some (stored_rng env) else None))))))"

fun restore_loop :: "env \<Rightarrow> path \<Rightarrow> app_state \<Rightarrow> key list \<Rightarrow> unit prog" where
  "restore_loop env self_path app_state [] = return ()"
| "restore_loop env self_path app_state (key # global_keys) =
     bind (load_stateful env self_path key (map_of app_state key)) (\<lambda>_.
     bind (emit Barrier) (\<lambda>_.
     restore_loop env self_path app_state global_keys))"

definition restore :: "env \<Rightarrow> pg_wrapper \<Rightarrow> key list list \<Rightarrow> path \<Rightarrow> app_state \<Rightarrow> unit prog" where
  "restore env pg peer_keys self_path app_state0 =
     (case validate_app_state app_state0 of
        Inl e \<Rightarrow> raise e
      | Inr _ \<Rightarrow>
          bind (emit NewEventLoop) (\<lambda>_.
          bind (emit (OpenStorage self_path)) (\<lambda>_.
          (case pop_rng_state app_state0 of
             Inl e \<Rightarrow> raise e
           | Inr (rng_state_item, app_state) \<Rightarrow>
               bind (emit AllGatherObject) (\<lambda>_.
               bind (restore_loop env self_path app_state
                       (gather_keys peer_keys (get_rank pg) (dict_keys app_state))) (\<lambda>_.
               bind (case rng_state_item of
                       Some (key, stateful) \<Rightarrow> load_stateful env self_path key (Some stateful)
                     | None \<Rightarrow> return ()) (\<lambda>_.
               bind (emit SyncClose) (\<lambda>_.
               emit EventLoopClose))))))))"

section \<open>\<^verbatim>\<open>Snapshot.async_take\<close> and \<^verbatim>\<open>PendingSnapshot\<close>\<close>

record pending_snapshot =
  pending_path :: path
  exc_info :: "exn option"
  done_flag :: bool

text \<open>
  \<^verbatim>\<open>async_take\<close> returns the handle as \<^verbatim>\<open>PendingSnapshot.__init__\<close> leaves it; the
  thread it starts runs \<open>complete_snapshot\<close>.
\<close>

definition async_take ::
  "env \<Rightarrow> pg_wrapper \<Rightarrow> path list \<Rightarrow> string list list \<Rightarrow> key list list
     \<Rightarrow> path \<Rightarrow> app_state \<Rightarrow> string list \<Rightarrow> pending_snapshot prog" where
  "async_take env pg peer_paths peer_replicated peer_keys path app_state replicated =
     (case validate_app_state app_state of
        Inl e \<Rightarrow> raise e
      | Inr _ \<Rightarrow>
          bind (emit NewEventLoop) (\<lambda>_.
          bind (coalesce_path_and_replicated pg peer_paths peer_replicated path app_state replicated)
            (\<lambda>(path', coalesced_replicated).
          bind (emit (OpenStorage path')) (\<lambda>_.
          bind (take_impl env pg peer_keys app_state) (\<lambda>_.
          bind (emit GetOrCreateStore) (\<lambda>_.
          return \<lparr>pending_path = path', exc_info = None, done_flag = False\<rparr>))))))"

text \<open>The \<^verbatim>\<open>try\<close> body of \<^verbatim>\<open>_complete_snapshot\<close>.\<close>

definition commit_body :: "env \<Rightarrow> nat \<Rightarrow> unit prog" where
  "commit_body env rank =
     bind (call env SyncComplete) (\<lambda>_.
     bind (call env Arrive) (\<lambda>_.
     bind (if rank = 0 then write_snapshot_metadata env else return ()) (\<lambda>_.
     call env Depart)))"

text \<open>
  \<^verbatim>\<open>_complete_snapshot\<close>: the \<^verbatim>\<open>try\<close> body, then the \<^verbatim>\<open>except Exception\<close>
  handler when the body raised, then the \<^verbatim>\<open>finally\<close> block, then \<^verbatim>\<open>_done = True\<close>.
  Every exception of this model is an \<^verbatim>\<open>Exception\<close>, so the handler catches it.
\<close>

definition complete_snapshot :: "env \<Rightarrow> nat \<Rightarrow> pending_snapshot \<Rightarrow> pending_snapshot prog" where
  "complete_snapshot env rank self w =
     (case commit_body env rank w of
        (Inr _, w1) \<Rightarrow>
          bind (emit SyncClose) (\<lambda>_.
          bind (emit EventLoopClose) (\<lambda>_.
          return (self\<lparr>done_flag := True\<rparr>))) w1
      | (Inl e, w1) \<Rightarrow>
          bind (emit (ReportError e)) (\<lambda>_.
          bind (emit (LogWarning (AsyncTakeException e))) (\<lambda>_.
          bind (emit SyncClose) (\<lambda>_.
          bind (emit EventLoopClose) (\<lambda>_.
          return (self\<lparr>exc_info := Some e, done_flag := True\<rparr>))))) w1)"

text \<open>
  \<^verbatim>\<open>wait\<close>, after \<^verbatim>\<open>self.thread.join()\<close> has returned: \<open>self\<close> is the handle as the
  thread left it. The result is the \<^verbatim>\<open>path\<close> of the \<^verbatim>\<open>Snapshot\<close> returned.
\<close>

definition wait :: "pending_snapshot \<Rightarrow> exn + path" where
  "wait self =
     (case exc_info self of
        Some e \<Rightarrow> Inl (RuntimeError_async_take e)
      | None \<Rightarrow> Inr (pending_path self))"

text \<open>\<^verbatim>\<open>PendingSnapshot.done\<close>.\<close>

definition is_done :: "pending_snapshot \<Rightarrow> bool" where
  "is_done self = done_flag self"

section \<open>\<^verbatim>\<open>Snapshot.read_object\<close>\<close>

text \<open>\<^verbatim>\<open>path.split("/", 1)\<close> unpacked into two names: \<open>None\<close> when there is no slash.\<close>

fun split_once :: "string \<Rightarrow> (string \<times> string) option" where
  "split_once [] = None"
| "split_once (c # cs) =
     (if c = CHR ''/'' then Some ([], cs)
      else (case split_once cs of None \<Rightarrow> None | Some (a, b) \<Rightarrow> Some (c # a, b)))"

text \<open>
  \<^verbatim>\<open>int(s)\<close> on an ASCII string: white space is stripped at both ends, one sign is
  allowed, then decimal digits, which single underscores may separate. \<open>None\<close> is
  \<^verbatim>\<open>ValueError\<close>.
\<close>

definition is_digit :: "char \<Rightarrow> bool" where
  "is_digit c = (c \<in> set ''0123456789'')"

definition digit_val :: "char \<Rightarrow> nat" where
  "digit_val c = of_char c - of_char CHR ''0''"

definition is_space :: "char \<Rightarrow> bool" where
  "is_space c = (c \<in> {CHR '' '', CHR 0x09, CHR 0x0A, CHR 0x0B, CHR 0x0C, CHR 0x0D,
                        CHR 0x1C, CHR 0x1D, CHR 0x1E, CHR 0x1F})"

fun digits_acc :: "nat \<Rightarrow> string \<Rightarrow> nat option" where
  "digits_acc n [] = Some n"
| "digits_acc n [c] = (if is_digit c then Some (10 * n + digit_val c) else None)"
| "digits_acc n (c # d # cs) =
     (if is_digit c then digits_acc (10 * n + digit_val c) (d # cs)
      else if c = CHR ''_'' \<and> is_digit d then digits_acc (10 * n + digit_val d) cs
      else None)"

definition parse_digits :: "string \<Rightarrow> nat option" where
  "parse_digits s =
     (case s of [] \<Rightarrow> None
      | c # cs \<Rightarrow> if is_digit c then digits_acc (digit_val c) cs else None)"

definition strip :: "string \<Rightarrow> string" where
  "strip s = rev (dropWhile is_space (rev (dropWhile is_space s)))"

definition py_int :: "string \<Rightarrow> int option" where
  "py_int s =
     (case strip s of
        [] \<Rightarrow> None
      | c # cs \<Rightarrow>
          if c = CHR ''-'' then map_option (\<lambda>n. - int n) (parse_digits cs)
          else if c = CHR ''+'' then map_option int (parse_digits cs)
          else map_option int (parse_digits (c # cs)))"

text \<open>
  \<^verbatim>\<open>read_object\<close> on the snapshot at \<open>self_path\<close>. \<open>in_place\<close> says that \<^verbatim>\<open>obj_out\<close>
  is a tensor or a sharded tensor. The entry is
  \<^verbatim>\<open>merged_sd_entries.get(unranked_path) or manifest[unranked_path]\<close>; it is looked up once
  here, and the lookup fails exactly when the source's membership test raises. What the
  source does from the \<^verbatim>\<open>isinstance(obj_out, ...)\<close> test on is \<open>read_entry\<close>.
\<close>

definition read_entry :: "env \<Rightarrow> path \<Rightarrow> bool \<Rightarrow> entry \<Rightarrow> obj prog" where
  "read_entry env self_path in_place entry =
     bind (if \<not> in_place then emit (LogWarning ObjOutNotInPlace) else return ()) (\<lambda>_.
     bind (emit NewEventLoop) (\<lambda>_.
     bind (emit (OpenStorage self_path)) (\<lambda>_.
     (case entry of
        PrimitiveEntry v \<Rightarrow> return (PrimitiveValue v)
      | StoredEntry location \<Rightarrow>
          bind (call env SyncExecuteReadReqs) (\<lambda>_.
          bind (emit SyncClose) (\<lambda>_.
          bind (emit EventLoopClose) (\<lambda>_.
          return (ReadFromStorage location))))))))"

definition read_object :: "env \<Rightarrow> path \<Rightarrow> path \<Rightarrow> bool \<Rightarrow> obj prog" where
  "read_object env self_path path in_place =
     (case split_once path of
        None \<Rightarrow> raise ValueError
      | Some (rank_str, unranked_path) \<Rightarrow>
          (case py_int rank_str of
             None \<Rightarrow> raise ValueError
           | Some rank \<Rightarrow>
               bind (metadata env self_path) (\<lambda>md.
               (let (manifest, merged_sd_entries) = get_manifest_for_rank env md rank
                in case (case merged_sd_entries unranked_path of
                           Some e \<Rightarrow> Some e
                         | None \<Rightarrow> manifest unranked_path) of
                     None \<Rightarrow> raise (RuntimeError_path_not_in_manifest path)
                   | Some entry \<Rightarrow> read_entry env self_path in_place entry))))"

section \<open>Replication\<close>

datatype flat_value = ShardedTensor | NotSharded

fun isinstance_ShardedTensor :: "flat_value \<Rightarrow> bool" where
  "isinstance_ShardedTensor ShardedTensor = True"
| "isinstance_ShardedTensor NotSharded = False"

text \<open>
  \<^verbatim>\<open>_calculate_replicated_entries\<close>. \<open>fnmatch\<close> is \<^verbatim>\<open>fnmatch.fnmatch\<close> of the standard
  library, taken as given. The first loop collects the local proposals.
\<close>

definition local_replicated_paths ::
  "(string \<Rightarrow> string \<Rightarrow> bool) \<Rightarrow> (path \<times> flat_value) list \<Rightarrow> string set \<Rightarrow> path list" where
  "local_replicated_paths fnmatch flattened replicated =
     map fst (filter (\<lambda>(path, val).
                (\<exists>p \<in> replicated. fnmatch path p) \<and> \<not> isinstance_ShardedTensor val)
              flattened)"

text \<open>\<^verbatim>\<open>path_count\<close>, the \<^verbatim>\<open>defaultdict(int)\<close> filled by the two nested loops.\<close>

definition path_count :: "path list list \<Rightarrow> path \<Rightarrow> nat" where
  "path_count obj_list p = count_list (concat obj_list) p"

text \<open>What a rank passes to \<^verbatim>\<open>broadcast_object_list\<close>.\<close>

definition replicated_paths_list :: "pg_wrapper \<Rightarrow> path list list \<Rightarrow> path list \<Rightarrow> path list" where
  "replicated_paths_list pg obj_list replicated_paths =
     (if get_rank pg = 0
      then filter (\<lambda>p. path_count obj_list p = get_world_size pg) replicated_paths
      else [])"

definition calculate_replicated_entries ::
  "(string \<Rightarrow> string \<Rightarrow> bool) \<Rightarrow> pg_wrapper \<Rightarrow> path list list \<Rightarrow> path list list
     \<Rightarrow> (path \<times> flat_value) list \<Rightarrow> string set \<Rightarrow> path set" where
  "calculate_replicated_entries fnmatch pg peer_proposals peer_lists flattened replicated =
     (let rank = get_rank pg;
          replicated_paths = local_replicated_paths fnmatch flattened replicated;
          obj_list = all_gather_object peer_proposals rank replicated_paths
      in set (broadcast_object_list peer_lists rank
                (replicated_paths_list pg obj_list replicated_paths) 0))"

text \<open>
  A run of \<^verbatim>\<open>_calculate_replicated_entries\<close> on all ranks: rank \<open>i\<close> holds
  \<open>flatteneds ! i\<close> and is given the set \<open>replicated\<close>; what the peers pass to the two
  collectives is what the same code computes on them.
\<close>

definition proposals ::
  "(string \<Rightarrow> string \<Rightarrow> bool) \<Rightarrow> (path \<times> flat_value) list list \<Rightarrow> string set \<Rightarrow> path list list" where
  "proposals fnmatch flatteneds replicated =
     map (\<lambda>flattened. local_replicated_paths fnmatch flattened replicated) flatteneds"

definition broadcast_args ::
  "(string \<Rightarrow> string \<Rightarrow> bool) \<Rightarrow> (path \<times> flat_value) list list \<Rightarrow> string set \<Rightarrow> path list list" where
  "broadcast_args fnmatch flatteneds replicated =
     map (\<lambda>i. replicated_paths_list \<lparr>get_rank = i, get_world_size = length flatteneds\<rparr>
                (proposals fnmatch flatteneds replicated)
                (proposals fnmatch flatteneds replicated ! i))
         [0..<length flatteneds]"

definition calculate_replicated_entries_on ::
  "(string \<Rightarrow> string \<Rightarrow> bool) \<Rightarrow> (path \<times> flat_value) list list \<Rightarrow> string set \<Rightarrow> nat \<Rightarrow> path set" where
  "calculate_replicated_entries_on fnmatch flatteneds replicated rank =
     calculate_replicated_entries fnmatch
       \<lparr>get_rank = rank, get_world_size = length flatteneds\<rparr>
       (proposals fnmatch flatteneds replicated)
       (broadcast_args fnmatch flatteneds replicated)
       (flatteneds ! rank) replicated"

section \<open>The caller's \<^verbatim>\<open>app_state\<close> dict\<close>

text \<open>
  Dicts live in a store under an identity; \<^verbatim>\<open>dict.copy()\<close> allocates a new dict with
  the same bindings; \<^verbatim>\<open>del app_state[key]\<close> inside \<^verbatim>\<open>_pop_rng_state\<close> changes the dict
  it is handed.
\<close>

record store =
  dicts :: "nat \<Rightarrow> app_state"
  next_id :: nat

definition dict_copy :: "store \<Rightarrow> nat \<Rightarrow> nat \<times> store" where
  "dict_copy st a =
     (next_id st, st\<lparr>dicts := (dicts st)(next_id st := dicts st a), next_id := Suc (next_id st)\<rparr>)"

definition pop_rng_state_at :: "store \<Rightarrow> nat \<Rightarrow> (exn + (key \<times> component) option) \<times> store" where
  "pop_rng_state_at st a =
     (case pop_rng_state (dicts st a) of
        Inl e \<Rightarrow> (Inl e, st)
      | Inr (item, d) \<Rightarrow> (Inr item, st\<lparr>dicts := (dicts st)(a := d)\<rparr>))"

text \<open>
  What \<^verbatim>\<open>take\<close>, \<^verbatim>\<open>async_take\<close> (through \<^verbatim>\<open>_take_impl\<close>) and \<^verbatim>\<open>restore\<close> do with the
  dict \<open>a\<close> the caller passes: \<^verbatim>\<open>_validate_app_state\<close> and \<^verbatim>\<open>_infer_replicated\<close> read it,
  \<^verbatim>\<open>app_state = app_state.copy()\<close> rebinds the local name to a new dict, and
  \<^verbatim>\<open>_pop_rng_state\<close> runs on that one; what follows reads the copy. The result is the
  identity of the copy and the popped item.
\<close>

definition use_app_state :: "store \<Rightarrow> nat \<Rightarrow> (exn + nat \<times> (key \<times> component) option) \<times> store" where
  "use_app_state st a =
     (case validate_app_state (dicts st a) of
        Inl e \<Rightarrow> (Inl e, st)
      | Inr _ \<Rightarrow>
          (let (c, st1) = dict_copy st a
           in case pop_rng_state_at st1 c of
                (Inl e, st2) \<Rightarrow> (Inl e, st2)
              | (Inr item, st2) \<Rightarrow> (Inr (c, item), st2)))"

section \<open>Observing a run\<close>

definition events_of :: "'a prog \<Rightarrow> world \<Rightarrow> event list" where
  "events_of m w = drop (length (trace w)) (trace (snd (m w)))"

fun key_step :: "event \<Rightarrow> bool" where
  "key_step Barrier = True"
| "key_step (LoadStateDict k) = True"
| "key_step ev = False"

fun storage_io :: "event \<Rightarrow> bool" where
  "storage_io (SyncWrite p) = True"
| "storage_io (SyncRead p) = True"
| "storage_io SyncExecuteWriteReqs = True"
| "storage_io SyncExecuteReadReqs = True"
| "storage_io SyncComplete = True"
| "storage_io ev = False"

text \<open>The events \<^verbatim>\<open>_take_impl\<close> can produce.\<close>

fun take_impl_event :: "event \<Rightarrow> bool" where
  "take_impl_event (StateDict k) = True"
| "take_impl_event (LoadStateDict k) = True"
| "take_impl_event Barrier = True"
| "take_impl_event AllGatherObject = True"
| "take_impl_event BroadcastObjectList = True"
| "take_impl_event PartitionWriteReqs = True"
| "take_impl_event GetProcessMemoryBudget = True"
| "take_impl_event SyncExecuteWriteReqs = True"
| "take_impl_event ev = False"

text \<open>The events \<^verbatim>\<open>_coalesce_path_and_replicated\<close> can produce.\<close>

fun coalesce_event :: "event \<Rightarrow> bool" where
  "coalesce_event BroadcastObjectList = True"
| "coalesce_event AllGatherObject = True"
| "coalesce_event (LogWarning x) = True"
| "coalesce_event ev = False"

section \<open>A small snapshot, for concrete runs\<close>

definition example_metadata :: snapshot_metadata where
  "example_metadata =
     \<lparr>version = ''0.0.1'', world_size = 2,
      manifest = [(''0/model/step'', PrimitiveEntry ''3''),
                  (''0/model/weight'', StoredEntry ''0/model/weight''),
                  (''1/model/step'', PrimitiveEntry ''3''),
                  (''1/model/weight'', StoredEntry ''1/model/weight'')]\<rparr>"

definition example_manifest_for_rank ::
  "snapshot_metadata \<Rightarrow> int \<Rightarrow> (path \<rightharpoonup> entry) \<times> (path \<rightharpoonup> entry)" where
  "example_manifest_for_rank md rank =
     (map_of [(''model/step'', PrimitiveEntry ''3''),
              (''model/weight'', StoredEntry ''0/model/weight'')], Map.empty)"

definition example_env :: env where
  "example_env =
     \<lparr>failure = (\<lambda>ev. None),
      state_dict_effect = (\<lambda>key r. 1 # r),
      load_state_dict_effect = (\<lambda>key r. 2 # r),
      stored_metadata = example_metadata,
      stored_rng = [7],
      get_manifest_for_rank = example_manifest_for_rank\<rparr>"

definition example_world :: world where
  "example_world = \<lparr>trace = [], rng = [7], cached_metadata = None\<rparr>"

section \<open>Running programs\<close>

subsection \<open>The key loops\<close>

lemma events_of_eq: "trace (snd (m w)) = trace w @ es \<Longrightarrow> events_of m w = es"
  by (simp add: events_of_def)

lemma map_of_in_keys: "map_of d k = Some v \<Longrightarrow> k \<in> set (dict_keys d)"
  by (auto simp: dict_keys_def dest: map_of_SomeD intro: rev_image_eqI)

lemma map_of_notin_keys: "map_of d k = None \<Longrightarrow> k \<notin> set (dict_keys d)"
  by (simp add: dict_keys_def map_of_eq_None_iff)

lemma gather_keys_world:
  "rank < length keyss \<Longrightarrow> gather_keys keyss rank (keyss ! rank) = sorted_list_of_set (\<Union> (set ` set keyss))"
  by (simp add: gather_keys_def all_gather_object_def)

lemma state_dict_run:
  "\<exists>r w'. state_dict env k s w = (Inr r, w') \<and> trace w' = trace w @ [StateDict k]
     \<and> cached_metadata w' = cached_metadata w
     \<and> (isinstance_RNGState s \<longrightarrow> r = Some (rng w) \<and> rng w' = rng w)"
  by (simp add: state_dict_def)

lemma capture_loop_trace:
  "\<exists>w'. capture_loop env app_state ks w = (Inr (), w') \<and>
     trace w' = trace w @ concat (map (\<lambda>k. (if k \<in> set (dict_keys app_state) then [StateDict k] else []) @ [Barrier]) ks)"
proof (induction ks arbitrary: w)
  case Nil
  show ?case by (simp add: return_def)
next
  case (Cons k ks)
  show ?case
  proof (cases "map_of app_state k")
    case None
    let ?w1 = "w\<lparr>trace := trace w @ [Barrier]\<rparr>"
    have step: "capture_loop env app_state (k # ks) w = capture_loop env app_state ks ?w1"
      using None by (simp add: bind_def return_def emit_def)
    show ?thesis unfolding step using Cons.IH [of ?w1] map_of_notin_keys [OF None] by simp
  next
    case (Some s)
    obtain r w1 where w1: "state_dict env k s w = (Inr r, w1)"
      and t1: "trace w1 = trace w @ [StateDict k]"
      using state_dict_run by blast
    let ?w2 = "w1\<lparr>trace := trace w1 @ [Barrier]\<rparr>"
    have step: "capture_loop env app_state (k # ks) w = capture_loop env app_state ks ?w2"
      using Some w1 by (simp add: bind_def return_def emit_def)
    show ?thesis unfolding step using Cons.IH [of ?w2] map_of_in_keys [OF Some] t1 by simp
  qed
qed

lemma metadata_ok:
  assumes "failure env (SyncRead SNAPSHOT_METADATA_FNAME) = None"
  shows "\<exists>md w' es. metadata env p w = (Inr md, w') \<and> trace w' = trace w @ es
           \<and> filter key_step es = [] \<and> rng w' = rng w"
proof (cases "cached_metadata w")
  case None
  then show ?thesis using assms
    by (simp add: metadata_def bind_def emit_def return_def read_snapshot_metadata_def call_def set_cached_metadata_def)
next
  case (Some md)
  then show ?thesis by (simp add: metadata_def return_def)
qed

lemma load_stateful_ok:
  assumes "failure env (SyncRead SNAPSHOT_METADATA_FNAME) = None" "failure env SyncExecuteReadReqs = None"
  shows "\<exists>w' es. load_stateful env p k (Some s) w = (Inr (), w') \<and> trace w' = trace w @ es \<and>
     filter key_step es = [LoadStateDict k]
     \<and> (isinstance_RNGState s \<longrightarrow> rng w' = stored_rng env)"
proof -
  obtain md w1 es1 where m: "metadata env p w = (Inr md, w1)" and t1: "trace w1 = trace w @ es1"
    and f1: "filter key_step es1 = []"
    using metadata_ok [OF assms(1)] by blast
  show ?thesis using m t1 f1 assms(2)
    by (simp add: load_stateful_def bind_def state_dict_def emit_def call_def load_state_dict_def)
qed

lemma restore_loop_trace:
  assumes "failure env (SyncRead SNAPSHOT_METADATA_FNAME) = None" "failure env SyncExecuteReadReqs = None"
  shows "\<exists>w' es. restore_loop env p app_state ks w = (Inr (), w') \<and> trace w' = trace w @ es \<and>
   filter key_step es =
     concat (map (\<lambda>k. (if k \<in> set (dict_keys app_state) then [LoadStateDict k] else []) @ [Barrier]) ks)"
proof (induction ks arbitrary: w)
  case Nil
  show ?case by (simp add: return_def)
next
  case (Cons k ks)
  show ?case
  proof (cases "map_of app_state k")
    case None
    let ?w1 = "w\<lparr>trace := trace w @ [Barrier]\<rparr>"
    have step: "restore_loop env p app_state (k # ks) w = restore_loop env p app_state ks ?w1"
      using None by (simp add: bind_def return_def emit_def load_stateful_def)
    obtain w' es where "restore_loop env p app_state ks ?w1 = (Inr (), w')" "trace w' = trace ?w1 @ es"
        "filter key_step es = concat (map (\<lambda>k. (if k \<in> set (dict_keys app_state) then [LoadStateDict k] else []) @ [Barrier]) ks)"
      using Cons.IH [of ?w1] by blast
    then show ?thesis unfolding step using map_of_notin_keys [OF None]
      by (intro exI [of _ w'] exI [of _ "Barrier # es"]) simp
  next
    case (Some s)
    obtain w1 es1 where w1: "load_stateful env p k (Some s) w = (Inr (), w1)"
      and t1: "trace w1 = trace w @ es1" and f1: "filter key_step es1 = [LoadStateDict k]"
      using load_stateful_ok [OF assms] by blast
    let ?w2 = "w1\<lparr>trace := trace w1 @ [Barrier]\<rparr>"
    have step: "restore_loop env p app_state (k # ks) w = restore_loop env p app_state ks ?w2"
      using Some w1 by (simp add: bind_def return_def emit_def)
    obtain w' es where "restore_loop env p app_state ks ?w2 = (Inr (), w')" "trace w' = trace ?w2 @ es"
        "filter key_step es = concat (map (\<lambda>k. (if k \<in> set (dict_keys app_state) then [LoadStateDict k] else []) @ [Barrier]) ks)"
      using Cons.IH [of ?w2] by blast
    then show ?thesis unfolding step using map_of_in_keys [OF Some] t1 f1
      by (intro exI [of _ w'] exI [of _ "es1 @ Barrier # es"]) simp
  qed
qed

text \<open>
  Claim C1. Whatever key lists \<open>keyss\<close> the ranks hold, \<^verbatim>\<open>_gather_keys\<close> gives every rank
  the same list: the sorted, duplicate-free union of all ranks' key lists. The loops of
  \<^verbatim>\<open>_take_impl\<close> and of \<^verbatim>\<open>restore\<close> walk that list; at a key the rank does not hold
  they do nothing, and after every key they call the barrier. The statement gives the
  events of the capture loop, and of the restore loop (when no read fails) the calls to
  \<^verbatim>\<open>load_state_dict\<close> and to the barrier.
\<close>

theorem C1_global_key_order:
  assumes "rank < length keyss"
      and "dict_keys app_state = keyss ! rank"
      and "failure env (SyncRead SNAPSHOT_METADATA_FNAME) = None"
      and "failure env SyncExecuteReadReqs = None"
  shows "gather_keys keyss rank (dict_keys app_state) = sorted_list_of_set (\<Union> (set ` set keyss))
       \<and> sorted (gather_keys keyss rank (dict_keys app_state))
       \<and> distinct (gather_keys keyss rank (dict_keys app_state))
       \<and> set (gather_keys keyss rank (dict_keys app_state)) = \<Union> (set ` set keyss)
       \<and> fst (capture_loop env app_state (gather_keys keyss rank (dict_keys app_state)) w) = Inr ()
       \<and> events_of (capture_loop env app_state (gather_keys keyss rank (dict_keys app_state))) w =
           concat (map (\<lambda>k. (if k \<in> set (keyss ! rank) then [StateDict k] else []) @ [Barrier])
                       (sorted_list_of_set (\<Union> (set ` set keyss))))
       \<and> fst (restore_loop env self_path app_state (gather_keys keyss rank (dict_keys app_state)) w) = Inr ()
       \<and> filter key_step (events_of (restore_loop env self_path app_state
                                        (gather_keys keyss rank (dict_keys app_state))) w) =
           concat (map (\<lambda>k. (if k \<in> set (keyss ! rank) then [LoadStateDict k] else []) @ [Barrier])
                       (sorted_list_of_set (\<Union> (set ` set keyss))))"
proof -
  let ?G = "sorted_list_of_set (\<Union> (set ` set keyss))"
  have g: "gather_keys keyss rank (dict_keys app_state) = ?G"
    using gather_keys_world [OF assms(1)] assms(2) by simp
  have fin: "finite (\<Union> (set ` set keyss))" by simp
  have s1: "sorted ?G" and s2: "distinct ?G" and s3: "set ?G = \<Union> (set ` set keyss)"
    using fin by simp_all
  obtain wc where c: "capture_loop env app_state ?G w = (Inr (), wc)"
    and ct: "trace wc =
       trace w @ concat (map (\<lambda>k. (if k \<in> set (dict_keys app_state) then [StateDict k] else []) @ [Barrier]) ?G)"
    using capture_loop_trace [of env app_state ?G w] by blast
  obtain wr es where r: "restore_loop env self_path app_state ?G w = (Inr (), wr)"
    and rt: "trace wr = trace w @ es"
    and rf: "filter key_step es =
       concat (map (\<lambda>k. (if k \<in> set (dict_keys app_state) then [LoadStateDict k] else []) @ [Barrier]) ?G)"
    using restore_loop_trace [OF assms(3,4), of self_path app_state ?G w] by blast
  have c1: "fst (capture_loop env app_state ?G w) = Inr ()" using c by simp
  have r1: "fst (restore_loop env self_path app_state ?G w) = Inr ()" using r by simp
  have ce: "events_of (capture_loop env app_state ?G) w =
      concat (map (\<lambda>k. (if k \<in> set (keyss ! rank) then [StateDict k] else []) @ [Barrier]) ?G)"
    using events_of_eq [of "capture_loop env app_state ?G" w] c ct assms(2) by simp
  have re: "filter key_step (events_of (restore_loop env self_path app_state ?G) w) =
      concat (map (\<lambda>k. (if k \<in> set (keyss ! rank) then [LoadStateDict k] else []) @ [Barrier]) ?G)"
    using events_of_eq [of "restore_loop env self_path app_state ?G" w es] r rt rf assms(2) by simp
  show ?thesis unfolding g using s1 s2 s3 c1 ce r1 re by blast
qed

lemma example_union: "sorted_list_of_set (\<Union> (set ` set [[''model''], [''model'', ''opt'']])) = [''model'', ''opt'']"
  by code_simp

text \<open>
  The example of the spec: rank 0 holds \<open>model\<close>, rank 1 holds \<open>model\<close> and \<open>opt\<close>; rank 0
  skips \<open>opt\<close> and still calls the barrier twice.
\<close>

theorem C1_global_key_order_witness:
  "gather_keys [[''model''], [''model'', ''opt'']] 0 (dict_keys [(''model'', PlainStateful)]) = [''model'', ''opt'']
   \<and> events_of (capture_loop example_env [(''model'', PlainStateful)]
        (gather_keys [[''model''], [''model'', ''opt'']] 0 (dict_keys [(''model'', PlainStateful)]))) example_world
      = [StateDict ''model'', Barrier, Barrier]
   \<and> filter key_step (events_of (restore_loop example_env ''/tmp/snap'' [(''model'', PlainStateful)]
        (gather_keys [[''model''], [''model'', ''opt'']] 0 (dict_keys [(''model'', PlainStateful)]))) example_world)
      = [LoadStateDict ''model'', Barrier, Barrier]"
proof -
  have h1: "(0::nat) < length [[''model''], [''model'', ''opt'']]" by simp
  have h2: "dict_keys [(''model'', PlainStateful)] = [[''model''], [''model'', ''opt'']] ! 0"
    by (simp add: dict_keys_def)
  have h3: "failure example_env (SyncRead SNAPSHOT_METADATA_FNAME) = None"
    and h4: "failure example_env SyncExecuteReadReqs = None"
    by (simp_all add: example_env_def)
  note T = C1_global_key_order [OF h1 h2 h3 h4, where w = example_world and self_path = "''/tmp/snap''",
      unfolded example_union]
  note T1 = T [THEN conjunct1]
  note T6 = T [THEN conjunct2, THEN conjunct2, THEN conjunct2, THEN conjunct2, THEN conjunct2, THEN conjunct1]
  note T8 = T [THEN conjunct2, THEN conjunct2, THEN conjunct2, THEN conjunct2, THEN conjunct2,
      THEN conjunct2, THEN conjunct2]
  have a: "events_of (capture_loop example_env [(''model'', PlainStateful)]
        (gather_keys [[''model''], [''model'', ''opt'']] 0 (dict_keys [(''model'', PlainStateful)]))) example_world
      = [StateDict ''model'', Barrier, Barrier]"
    using T6 by simp
  have b: "filter key_step (events_of (restore_loop example_env ''/tmp/snap'' [(''model'', PlainStateful)]
        (gather_keys [[''model''], [''model'', ''opt'']] 0 (dict_keys [(''model'', PlainStateful)]))) example_world)
      = [LoadStateDict ''model'', Barrier, Barrier]"
    using T8 by simp
  show ?thesis using T1 a b by blast
qed

subsection \<open>Replicated patterns and paths\<close>

lemma fold_inter: "fold (\<lambda>t acc. acc \<inter> t) ss s = {q. q \<in> s \<and> (\<forall>t \<in> set ss. q \<in> t)}"
  by (induction ss arbitrary: s) auto

lemma coalesce_replicated_nonempty:
  "global_replicated \<noteq> [] \<Longrightarrow>
     coalesce_replicated global_replicated = Inr {q. \<forall>l \<in> set global_replicated. q \<in> set l}"
  by (cases global_replicated) (auto simp: coalesce_replicated_def fold_inter)

lemma count_list_distinct: "distinct l \<Longrightarrow> count_list l p = (if p \<in> set l then 1 else 0)"
  by (induction l) auto

lemma count_concat_distinct:
  "\<forall>l \<in> set ls. distinct l \<Longrightarrow> count_list (concat ls) p = length (filter (\<lambda>l. p \<in> set l) ls)"
  by (induction ls) (auto simp: count_list_distinct)

lemma length_filter_all: "length (filter P ls) = length ls \<longleftrightarrow> (\<forall>l \<in> set ls. P l)"
proof (induction ls)
  case Nil
  show ?case by simp
next
  case (Cons a ls)
  have "length (filter P ls) \<le> length ls" by simp
  then have "length (filter P ls) \<noteq> Suc (length ls)" by linarith
  then show ?case using Cons by auto
qed

lemma path_count_world:
  "\<forall>l \<in> set ls. distinct l \<Longrightarrow> path_count ls p = length ls \<longleftrightarrow> (\<forall>l \<in> set ls. p \<in> set l)"
  by (simp add: path_count_def count_concat_distinct length_filter_all)

lemma local_replicated_paths_distinct:
  "distinct (map fst f) \<Longrightarrow> distinct (local_replicated_paths fnmatch f R)"
  by (simp add: local_replicated_paths_def distinct_map_filter)

lemma proposals_distinct:
  "\<forall>f \<in> set fs. distinct (map fst f) \<Longrightarrow> \<forall>l \<in> set (proposals fnmatch fs R). distinct l"
  by (auto simp: proposals_def local_replicated_paths_distinct)

lemma local_replicated_paths_mem:
  "distinct (map fst f) \<Longrightarrow> (path, val) \<in> set f \<Longrightarrow>
     path \<in> set (local_replicated_paths fnmatch f R) \<longleftrightarrow>
       (\<exists>q \<in> R. fnmatch path q) \<and> \<not> isinstance_ShardedTensor val"
proof -
  assume d: "distinct (map fst f)" and m: "(path, val) \<in> set f"
  have u: "\<And>v. (path, v) \<in> set f \<Longrightarrow> v = val"
    using d m by (meson eq_key_imp_eq_value)
  show ?thesis
  proof
    assume "path \<in> set (local_replicated_paths fnmatch f R)"
    then obtain v where "(path, v) \<in> set f" "(\<exists>q \<in> R. fnmatch path q)" "\<not> isinstance_ShardedTensor v"
      by (auto simp: local_replicated_paths_def) blast
    then show "(\<exists>q \<in> R. fnmatch path q) \<and> \<not> isinstance_ShardedTensor val" using u by blast
  next
    assume "(\<exists>q \<in> R. fnmatch path q) \<and> \<not> isinstance_ShardedTensor val"
    then show "path \<in> set (local_replicated_paths fnmatch f R)"
      using m by (force simp: local_replicated_paths_def)
  qed
qed

lemma calculate_replicated_entries_on_bcast:
  assumes r: "rank < length fs"
  shows "calculate_replicated_entries_on fnmatch fs R rank = set (broadcast_args fnmatch fs R ! 0)"
proof -
  let ?P = "proposals fnmatch fs R"
  let ?B = "broadcast_args fnmatch fs R"
  have own: "local_replicated_paths fnmatch (fs ! rank) R = ?P ! rank"
    using r by (simp add: proposals_def)
  have g: "all_gather_object ?P rank (?P ! rank) = ?P"
    by (simp add: all_gather_object_def)
  have b: "replicated_paths_list \<lparr>get_rank = rank, get_world_size = length fs\<rparr> ?P (?P ! rank) = ?B ! rank"
    using r by (simp add: broadcast_args_def)
  show ?thesis
    unfolding calculate_replicated_entries_on_def calculate_replicated_entries_def
    by (simp add: own g b broadcast_object_list_def Let_def)
qed

lemma calculate_replicated_entries_on_eq:
  assumes r: "rank < length fs" and d: "\<forall>f \<in> set fs. distinct (map fst f)"
  shows "calculate_replicated_entries_on fnmatch fs R rank =
           {p. \<forall>i < length fs. p \<in> set (proposals fnmatch fs R ! i)}"
proof -
  let ?P = "proposals fnmatch fs R"
  let ?B = "broadcast_args fnmatch fs R"
  have lp: "length ?P = length fs" by (simp add: proposals_def)
  have lb: "length ?B = length fs" by (simp add: broadcast_args_def)
  have z: "0 < length fs" using r by linarith
  have b0: "?B ! 0 = filter (\<lambda>p. path_count ?P p = length fs) (?P ! 0)"
    using z by (simp add: broadcast_args_def replicated_paths_list_def)
  have res: "calculate_replicated_entries_on fnmatch fs R rank = set (?B ! 0)"
    using calculate_replicated_entries_on_bcast [OF r] by simp
  have pc: "\<And>p. path_count ?P p = length fs \<longleftrightarrow> (\<forall>l \<in> set ?P. p \<in> set l)"
    using path_count_world [OF proposals_distinct [OF d], of fnmatch R] lp by simp
  have all: "\<And>p. (\<forall>l \<in> set ?P. p \<in> set l) \<longleftrightarrow> (\<forall>i < length fs. p \<in> set (?P ! i))"
    unfolding all_set_conv_all_nth lp by (rule refl)
  have in0: "\<And>p. (\<forall>i < length fs. p \<in> set (?P ! i)) \<Longrightarrow> p \<in> set (?P ! 0)"
    using z by blast
  have "set (?B ! 0) = {p. \<forall>i < length fs. p \<in> set (?P ! i)}"
    unfolding b0 set_filter pc all using in0 by blast
  then show ?thesis using res by simp
qed

text \<open>
  Claim C2. With at least one rank, \<^verbatim>\<open>_coalesce_replicated\<close> honors exactly the patterns
  that occur in every rank's gathered list. When every rank then runs
  \<^verbatim>\<open>_calculate_replicated_entries\<close> with the honored set, a path of this rank's flattened
  state is in the result iff it matches an honored pattern, its value is not a
  \<^verbatim>\<open>ShardedTensor\<close>, and all ranks proposed it. The result holds paths of this rank only,
  it is the list rank 0 passes to the broadcast, and it is the same set on every rank.
\<close>

theorem C2_replication:
  assumes "global_replicated \<noteq> []"
      and "rank < length flatteneds"
      and "\<forall>f \<in> set flatteneds. distinct (map fst f)"
      and "honored = {q. \<forall>l \<in> set global_replicated. q \<in> set l}"
  shows "coalesce_replicated global_replicated = Inr honored
       \<and> (\<forall>path val. (path, val) \<in> set (flatteneds ! rank) \<longrightarrow>
            (path \<in> calculate_replicated_entries_on fnmatch flatteneds honored rank \<longleftrightarrow>
               (\<exists>q \<in> honored. fnmatch path q) \<and> \<not> isinstance_ShardedTensor val \<and>
               (\<forall>i < length flatteneds. path \<in> set (proposals fnmatch flatteneds honored ! i))))
       \<and> calculate_replicated_entries_on fnmatch flatteneds honored rank \<subseteq> fst ` set (flatteneds ! rank)
       \<and> calculate_replicated_entries_on fnmatch flatteneds honored rank =
           set (broadcast_args fnmatch flatteneds honored ! 0)
       \<and> calculate_replicated_entries_on fnmatch flatteneds honored rank =
           calculate_replicated_entries_on fnmatch flatteneds honored 0"
proof -
  let ?P = "proposals fnmatch flatteneds honored"
  have z: "0 < length flatteneds" using assms(2) by linarith
  have c: "coalesce_replicated global_replicated = Inr honored"
    using coalesce_replicated_nonempty [OF assms(1)] assms(4) by simp
  have e: "calculate_replicated_entries_on fnmatch flatteneds honored rank =
           {p. \<forall>i < length flatteneds. p \<in> set (?P ! i)}"
    using calculate_replicated_entries_on_eq [OF assms(2,3)] by simp
  have e0: "calculate_replicated_entries_on fnmatch flatteneds honored 0 =
           {p. \<forall>i < length flatteneds. p \<in> set (?P ! i)}"
    using calculate_replicated_entries_on_eq [OF z assms(3)] by simp
  have dr: "distinct (map fst (flatteneds ! rank))" using assms(2,3) by simp
  have own: "?P ! rank = local_replicated_paths fnmatch (flatteneds ! rank) honored"
    using assms(2) by (simp add: proposals_def)
  have iff: "\<And>path val. (path, val) \<in> set (flatteneds ! rank) \<Longrightarrow>
            (path \<in> calculate_replicated_entries_on fnmatch flatteneds honored rank \<longleftrightarrow>
               (\<exists>q \<in> honored. fnmatch path q) \<and> \<not> isinstance_ShardedTensor val \<and>
               (\<forall>i < length flatteneds. path \<in> set (?P ! i)))"
  proof -
    fix path val assume m: "(path, val) \<in> set (flatteneds ! rank)"
    have l: "path \<in> set (?P ! rank) \<longleftrightarrow> (\<exists>q \<in> honored. fnmatch path q) \<and> \<not> isinstance_ShardedTensor val"
      unfolding own using local_replicated_paths_mem [OF dr m] by simp
    show "path \<in> calculate_replicated_entries_on fnmatch flatteneds honored rank \<longleftrightarrow>
               (\<exists>q \<in> honored. fnmatch path q) \<and> \<not> isinstance_ShardedTensor val \<and>
               (\<forall>i < length flatteneds. path \<in> set (?P ! i))"
      unfolding e using l assms(2) by blast
  qed
  have sub: "calculate_replicated_entries_on fnmatch flatteneds honored rank \<subseteq> fst ` set (flatteneds ! rank)"
  proof
    fix p assume "p \<in> calculate_replicated_entries_on fnmatch flatteneds honored rank"
    then have "p \<in> set (?P ! rank)" unfolding e using assms(2) by blast
    then show "p \<in> fst ` set (flatteneds ! rank)"
      unfolding own by (auto simp: local_replicated_paths_def)
  qed
  have b0: "calculate_replicated_entries_on fnmatch flatteneds honored rank =
           set (broadcast_args fnmatch flatteneds honored ! 0)"
    using calculate_replicated_entries_on_bcast [OF assms(2)] by simp
  have eq0: "calculate_replicated_entries_on fnmatch flatteneds honored rank =
           calculate_replicated_entries_on fnmatch flatteneds honored 0"
    unfolding e e0 by (rule refl)
  show ?thesis
    apply (intro conjI allI impI)
        apply (rule c)
       apply (rule iff, assumption)
      apply (rule sub)
     apply (rule b0)
    apply (rule eq0)
    done
qed

text \<open>
  Two ranks: \<open>opt/**\<close> is proposed by rank 0 only and is not honored;
  \<open>model/bias\<close> exists on rank 1 only and is not replicated; \<open>model/weight\<close> is.
\<close>

theorem C2_replication_witness:
  "coalesce_replicated [[''**'', ''opt/**''], [''**'']] = Inr {''**''}
   \<and> ''model/bias'' \<notin> calculate_replicated_entries_on (\<lambda>path p. p = ''**'' \<or> p = path)
         [[(''model/weight'', NotSharded), (''model/emb'', ShardedTensor)],
          [(''model/weight'', NotSharded), (''model/bias'', NotSharded)]] {''**''} 1
   \<and> ''model/weight'' \<in> calculate_replicated_entries_on (\<lambda>path p. p = ''**'' \<or> p = path)
         [[(''model/weight'', NotSharded), (''model/emb'', ShardedTensor)],
          [(''model/weight'', NotSharded), (''model/bias'', NotSharded)]] {''**''} 1
   \<and> calculate_replicated_entries_on (\<lambda>path p. p = ''**'' \<or> p = path)
         [[(''model/weight'', NotSharded), (''model/emb'', ShardedTensor)],
          [(''model/weight'', NotSharded), (''model/bias'', NotSharded)]] {''**''} 1
     = calculate_replicated_entries_on (\<lambda>path p. p = ''**'' \<or> p = path)
         [[(''model/weight'', NotSharded), (''model/emb'', ShardedTensor)],
          [(''model/weight'', NotSharded), (''model/bias'', NotSharded)]] {''**''} 0"
proof -
  let ?fs = "[[(''model/weight'', NotSharded), (''model/emb'', ShardedTensor)],
              [(''model/weight'', NotSharded), (''model/bias'', NotSharded)]]"
  let ?f = "\<lambda>path p. p = ''**'' \<or> p = path"
  have h1: "[[''**'', ''opt/**''], [''**'']] \<noteq> []" by simp
  have h2: "(1::nat) < length ?fs" by simp
  have h3: "\<forall>f \<in> set ?fs. distinct (map fst f)" by simp
  have h4: "{''**''} = {q. \<forall>l \<in> set [[''**'', ''opt/**''], [''**'']]. q \<in> set l}" by auto
  note T = C2_replication [OF h1 h2 h3 h4, where fnmatch = ?f]
  note T1 = T [THEN conjunct1]
  note T2 = T [THEN conjunct2, THEN conjunct1, rule_format]
  note T5 = T [THEN conjunct2, THEN conjunct2, THEN conjunct2, THEN conjunct2]
  have p0: "proposals ?f ?fs {''**''} ! 0 = [''model/weight'']"
    and p1: "proposals ?f ?fs {''**''} ! 1 = [''model/weight'', ''model/bias'']"
    by (simp_all add: proposals_def local_replicated_paths_def)
  have m1: "(''model/bias'', NotSharded) \<in> set (?fs ! 1)" by simp
  have m2: "(''model/weight'', NotSharded) \<in> set (?fs ! 1)" by simp
  have a: "''model/bias'' \<notin> calculate_replicated_entries_on ?f ?fs {''**''} 1"
    using T2 [OF m1] p0 by auto
  have b: "''model/weight'' \<in> calculate_replicated_entries_on ?f ?fs {''**''} 1"
    using T2 [OF m2] p0 p1 by (auto simp: less_Suc_eq numeral_2_eq_2)
  show ?thesis using T1 a b T5 by blast
qed

subsection \<open>Runs of \<^verbatim>\<open>take\<close>\<close>

lemma bind_Inr: "m w = (Inr x, w1) \<Longrightarrow> bind m f w = f x w1"
  by (simp add: bind_def)

lemma bind_Inl: "m w = (Inl e, w1) \<Longrightarrow> bind m f w = (Inl e, w1)"
  by (simp add: bind_def)

lemma emit_run: "emit ev w = (Inr (), w\<lparr>trace := trace w @ [ev]\<rparr>)"
  by (simp add: emit_def)

lemma coalesce_run:
  "\<exists>r w' es. coalesce_path_and_replicated pg peer_paths peer_replicated path app_state replicated w = (r, w')
     \<and> trace w' = trace w @ es \<and> rng w' = rng w \<and> cached_metadata w' = cached_metadata w
     \<and> list_all coalesce_event es
     \<and> (\<forall>p c. r = Inr (p, c) \<longrightarrow> p = broadcast_object_list peer_paths (get_rank pg) path 0)
     \<and> (peer_replicated \<noteq> [] \<longrightarrow> (\<exists>c. r = Inr (broadcast_object_list peer_paths (get_rank pg) path 0, c)))
     \<and> (LogWarning (PathDiffers (get_rank pg) path (broadcast_object_list peer_paths (get_rank pg) path 0)) \<in> set es
          \<longleftrightarrow> broadcast_object_list peer_paths (get_rank pg) path 0 \<noteq> path)"
proof (cases "coalesce_replicated (all_gather_object peer_replicated (get_rank pg) (infer_replicated replicated app_state))")
  case (Inl e)
  then show ?thesis
    by (simp add: coalesce_path_and_replicated_def Let_def bind_def emit_def return_def raise_def
        coalesce_replicated_def all_gather_object_def split: list.splits)
next
  case (Inr c)
  then show ?thesis
    by (simp add: coalesce_path_and_replicated_def Let_def bind_def emit_def return_def raise_def)
qed

lemma capture_loop_run:
  "\<exists>w'. capture_loop env app_state ks w = (Inr (), w') \<and>
     trace w' = trace w @ concat (map (\<lambda>k. (if k \<in> set (dict_keys app_state) then [StateDict k] else []) @ [Barrier]) ks)
     \<and> cached_metadata w' = cached_metadata w"
proof (induction ks arbitrary: w)
  case Nil
  show ?case by (simp add: return_def)
next
  case (Cons k ks)
  show ?case
  proof (cases "map_of app_state k")
    case None
    let ?w1 = "w\<lparr>trace := trace w @ [Barrier]\<rparr>"
    have step: "capture_loop env app_state (k # ks) w = capture_loop env app_state ks ?w1"
      using None by (simp add: bind_def return_def emit_def)
    show ?thesis unfolding step using Cons.IH [of ?w1] map_of_notin_keys [OF None] by simp
  next
    case (Some s)
    obtain r w1 where w1: "state_dict env k s w = (Inr r, w1)"
      and t1: "trace w1 = trace w @ [StateDict k]" and c1: "cached_metadata w1 = cached_metadata w"
      using state_dict_run by blast
    let ?w2 = "w1\<lparr>trace := trace w1 @ [Barrier]\<rparr>"
    have step: "capture_loop env app_state (k # ks) w = capture_loop env app_state ks ?w2"
      using Some w1 by (simp add: bind_def return_def emit_def)
    show ?thesis unfolding step using Cons.IH [of ?w2] map_of_in_keys [OF Some] t1 c1 by simp
  qed
qed

lemma pop_rng_state_Some:
  assumes "pop_rng_state a0 = Inr (Some (rk, s), a)"
  shows "isinstance_RNGState s \<and> a = dict_del a0 rk \<and> (rk, s) \<in> set a0 \<and> rk \<notin> set (dict_keys a)"
proof -
  let ?items = "filter (\<lambda>(key, stateful). isinstance_RNGState stateful) a0"
  have l: "length ?items = 1"
    using assms by (auto simp: pop_rng_state_def Let_def split: if_splits)
  then obtain k v where i: "?items = [(k, v)]"
    by (cases ?items) (auto)
  have e: "pop_rng_state a0 = Inr (Some (k, v), dict_del a0 k)"
    using i by (simp add: pop_rng_state_def Let_def)
  have kv: "k = rk" "v = s" "a = dict_del a0 rk" using e assms by simp_all
  have m: "(k, v) \<in> set ?items" using i by simp
  then have "isinstance_RNGState v" "(k, v) \<in> set a0" by auto
  moreover have "rk \<notin> set (dict_keys (dict_del a0 rk))"
    by (auto simp: dict_keys_def dict_del_def)
  ultimately show ?thesis using kv by simp
qed

lemma pop_rng_state_None:
  assumes "pop_rng_state a0 = Inr (None, a)"
  shows "a = a0"
proof -
  let ?items = "filter (\<lambda>(key, stateful). isinstance_RNGState stateful) a0"
  show ?thesis
  proof (cases ?items)
    case Nil
    then show ?thesis using assms by (simp add: pop_rng_state_def Let_def)
  next
    case (Cons x xs)
    then show ?thesis using assms
      by (cases xs; cases x) (simp_all add: pop_rng_state_def Let_def)
  qed
qed

lemma take_impl_Inl:
  "pop_rng_state a0 = Inl e \<Longrightarrow> take_impl env pg pk a0 w = (Inl e, w)"
  by (simp add: take_impl_def raise_def)

lemma take_impl_None:
  assumes "pop_rng_state a0 = Inr (None, a)"
  shows "\<exists>w'. take_impl env pg pk a0 w = (Inr None, w') \<and>
     trace w' = trace w @ [AllGatherObject]
       @ concat (map (\<lambda>k. (if k \<in> set (dict_keys a) then [StateDict k] else []) @ [Barrier])
                     (gather_keys pk (get_rank pg) (dict_keys a)))
       @ [AllGatherObject, BroadcastObjectList, PartitionWriteReqs, AllGatherObject,
          GetProcessMemoryBudget, SyncExecuteWriteReqs]
     \<and> cached_metadata w' = cached_metadata w"
proof -
  let ?G = "gather_keys pk (get_rank pg) (dict_keys a)"
  let ?w0 = "w\<lparr>trace := trace w @ [AllGatherObject]\<rparr>"
  obtain w1 where l: "capture_loop env a ?G ?w0 = (Inr (), w1)"
    and t1: "trace w1 = trace ?w0 @ concat (map (\<lambda>k. (if k \<in> set (dict_keys a) then [StateDict k] else []) @ [Barrier]) ?G)"
    and c1: "cached_metadata w1 = cached_metadata ?w0"
    using capture_loop_run [of env a ?G ?w0] by blast
  show ?thesis using assms l t1 c1
    by (simp add: take_impl_def bind_def emit_def return_def)
qed

lemma take_impl_Some:
  assumes "pop_rng_state a0 = Inr (Some (rk, s), a)"
  shows "\<exists>w'. take_impl env pg pk a0 w = (Inr (Some (rng w)), w') \<and>
     trace w' = trace w @ [StateDict rk, AllGatherObject]
       @ concat (map (\<lambda>k. (if k \<in> set (dict_keys a) then [StateDict k] else []) @ [Barrier])
                     (gather_keys pk (get_rank pg) (dict_keys a)))
       @ [LoadStateDict rk, AllGatherObject, BroadcastObjectList, PartitionWriteReqs, AllGatherObject,
          GetProcessMemoryBudget, SyncExecuteWriteReqs]
     \<and> rng w' = rng w \<and> cached_metadata w' = cached_metadata w"
proof -
  have s: "isinstance_RNGState s" using pop_rng_state_Some [OF assms] by simp
  let ?G = "gather_keys pk (get_rank pg) (dict_keys a)"
  let ?w0 = "w\<lparr>trace := trace w @ [StateDict rk, AllGatherObject]\<rparr>"
  obtain w1 where l: "capture_loop env a ?G ?w0 = (Inr (), w1)"
    and t1: "trace w1 = trace ?w0 @ concat (map (\<lambda>k. (if k \<in> set (dict_keys a) then [StateDict k] else []) @ [Barrier]) ?G)"
    and c1: "cached_metadata w1 = cached_metadata ?w0"
    using capture_loop_run [of env a ?G ?w0] by blast
  show ?thesis using assms s l t1 c1
    by (simp add: take_impl_def bind_def emit_def return_def state_dict_def load_state_dict_def)
qed

lemma list_all_capture_events:
  "list_all take_impl_event (concat (map (\<lambda>k. (if k \<in> S then [StateDict k] else []) @ [Barrier]) ks))"
  by (induction ks) auto

lemma take_impl_run:
  "\<exists>r w' es. take_impl env pg pk a0 w = (r, w') \<and> trace w' = trace w @ es
      \<and> cached_metadata w' = cached_metadata w \<and> list_all take_impl_event es
      \<and> (\<forall>e. pop_rng_state a0 = Inl e \<longrightarrow> r = Inl e \<and> es = [])
      \<and> (\<forall>x. pop_rng_state a0 = Inr x \<longrightarrow> (\<exists>y. r = Inr y))"
proof (cases "pop_rng_state a0")
  case (Inl e)
  show ?thesis using take_impl_Inl [OF Inl] Inl by simp
next
  case (Inr x)
  obtain item a where x: "x = (item, a)" by (cases x)
  show ?thesis
  proof (cases item)
    case None
    obtain w' where "take_impl env pg pk a0 w = (Inr None, w')"
      "trace w' = trace w @ [AllGatherObject]
       @ concat (map (\<lambda>k. (if k \<in> set (dict_keys a) then [StateDict k] else []) @ [Barrier])
                     (gather_keys pk (get_rank pg) (dict_keys a)))
       @ [AllGatherObject, BroadcastObjectList, PartitionWriteReqs, AllGatherObject,
          GetProcessMemoryBudget, SyncExecuteWriteReqs]"
      "cached_metadata w' = cached_metadata w"
      using take_impl_None [of a0 a] Inr x None by blast
    then show ?thesis using Inr list_all_capture_events by auto
  next
    case (Some kv)
    obtain rk s where kv: "kv = (rk, s)" by (cases kv)
    obtain w' where "take_impl env pg pk a0 w = (Inr (Some (rng w)), w')"
      "trace w' = trace w @ [StateDict rk, AllGatherObject]
       @ concat (map (\<lambda>k. (if k \<in> set (dict_keys a) then [StateDict k] else []) @ [Barrier])
                     (gather_keys pk (get_rank pg) (dict_keys a)))
       @ [LoadStateDict rk, AllGatherObject, BroadcastObjectList, PartitionWriteReqs, AllGatherObject,
          GetProcessMemoryBudget, SyncExecuteWriteReqs]"
      "cached_metadata w' = cached_metadata w"
      using take_impl_Some [of a0 rk s a] Inr x Some kv by blast
    then show ?thesis using Inr list_all_capture_events by auto
  qed
qed

lemma validate_app_state_unit: "validate_app_state a = Inr u \<longleftrightarrow> validate_app_state a = Inr ()"
  by simp

lemma take_run:
  "\<exists>r w' pre p0.
      take env pg pp pr pk path app_state replicated w = (r, w')
    \<and> p0 = broadcast_object_list pp (get_rank pg) path 0
    \<and> list_all (\<lambda>e. e = NewEventLoop \<or> e = OpenStorage p0 \<or> coalesce_event e \<or> take_impl_event e) pre
    \<and> (  (trace w' = trace w @ pre \<and> (\<exists>e. r = Inl e)
            \<and> list_all (\<lambda>e. e = NewEventLoop \<or> e = OpenStorage p0 \<or> coalesce_event e) pre
            \<and> (\<forall>e. validate_app_state app_state = Inl e \<longrightarrow> r = Inl e \<and> pre = [])
            \<and> (\<forall>e. validate_app_state app_state = Inr () \<and> pr \<noteq> [] \<and> pop_rng_state app_state = Inl e \<longrightarrow> r = Inl e)
            \<and> (validate_app_state app_state = Inr () \<and> pr \<noteq> [] \<longrightarrow> (\<exists>e. pop_rng_state app_state = Inl e)))
        \<or> (trace w' = trace w @ pre @ [SyncComplete] \<and> OpenStorage p0 \<in> set pre
            \<and> (\<exists>msg. failure env SyncComplete = Some msg \<and> r = Inl (External msg)))
        \<or> (trace w' = trace w @ pre @ [SyncComplete, Barrier, SyncClose, EventLoopClose]
            \<and> OpenStorage p0 \<in> set pre
            \<and> failure env SyncComplete = None \<and> get_rank pg \<noteq> 0 \<and> r = Inr p0)
        \<or> (trace w' = trace w @ pre @ [SyncComplete, Barrier, SyncWrite SNAPSHOT_METADATA_FNAME]
            \<and> OpenStorage p0 \<in> set pre
            \<and> failure env SyncComplete = None \<and> get_rank pg = 0
            \<and> (\<exists>msg. failure env (SyncWrite SNAPSHOT_METADATA_FNAME) = Some msg \<and> r = Inl (External msg)))
        \<or> (trace w' = trace w @ pre @ [SyncComplete, Barrier, SyncWrite SNAPSHOT_METADATA_FNAME,
                                        SyncClose, EventLoopClose]
            \<and> OpenStorage p0 \<in> set pre
            \<and> failure env SyncComplete = None \<and> get_rank pg = 0
            \<and> failure env (SyncWrite SNAPSHOT_METADATA_FNAME) = None \<and> r = Inr p0))"
proof (cases "validate_app_state app_state")
  case (Inl e)
  then have "take env pg pp pr pk path app_state replicated w = (Inl e, w)"
    by (simp add: take_def raise_def)
  then show ?thesis using Inl by auto
next
  case (Inr u)
  let ?p0 = "broadcast_object_list pp (get_rank pg) path 0"
  let ?w0 = "w\<lparr>trace := trace w @ [NewEventLoop]\<rparr>"
  obtain rc w1 es1 where c: "coalesce_path_and_replicated pg pp pr path app_state replicated ?w0 = (rc, w1)"
    and t1: "trace w1 = trace ?w0 @ es1" and a1: "list_all coalesce_event es1"
    and p1: "\<forall>p c. rc = Inr (p, c) \<longrightarrow> p = ?p0"
    and n1: "pr \<noteq> [] \<longrightarrow> (\<exists>c. rc = Inr (?p0, c))"
    using coalesce_run [of pg pp pr path app_state replicated ?w0] by blast
  show ?thesis
  proof (cases rc)
    case (Inl e)
    have "take env pg pp pr pk path app_state replicated w = (Inl e, w1)"
      using Inr c Inl by (simp add: take_def bind_def emit_def)
    moreover have "trace w1 = trace w @ NewEventLoop # es1" using t1 by simp
    moreover have "list_all (\<lambda>e. e = NewEventLoop \<or> e = OpenStorage ?p0 \<or> coalesce_event e \<or> take_impl_event e)
                     (NewEventLoop # es1)"
      using a1 by (auto simp: list_all_iff)
    moreover have "list_all (\<lambda>e. e = NewEventLoop \<or> e = OpenStorage ?p0 \<or> coalesce_event e)
                     (NewEventLoop # es1)"
      using a1 by (auto simp: list_all_iff)
    moreover have "pr = []" using n1 Inl by auto
    ultimately show ?thesis using Inr
      by (intro exI [of _ "Inl e"] exI [of _ w1] exI [of _ "NewEventLoop # es1"] exI [of _ ?p0]) simp
  next
    case rcr: (Inr pc)
    obtain p c0 where pc: "pc = (p, c0)" by (cases pc)
    have pp0: "p = ?p0" using p1 rcr pc by simp
    let ?w2 = "w1\<lparr>trace := trace w1 @ [OpenStorage ?p0]\<rparr>"
    obtain ri w3 es2 where ti: "take_impl env pg pk app_state ?w2 = (ri, w3)"
      and t3: "trace w3 = trace ?w2 @ es2" and a3: "list_all take_impl_event es2"
      and e3: "\<forall>e. pop_rng_state app_state = Inl e \<longrightarrow> ri = Inl e \<and> es2 = []"
      and r3: "\<forall>x. pop_rng_state app_state = Inr x \<longrightarrow> (\<exists>y. ri = Inr y)"
      using take_impl_run [of env pg pk app_state ?w2] by (elim exE conjE) (rule that; assumption)
    let ?pre = "NewEventLoop # es1 @ OpenStorage ?p0 # es2"
    have tr3: "trace w3 = trace w @ ?pre" using t1 t3 by simp
    have apre: "list_all (\<lambda>e. e = NewEventLoop \<or> e = OpenStorage ?p0 \<or> coalesce_event e \<or> take_impl_event e) ?pre"
      using a1 a3 by (auto simp: list_all_iff)
    have opre: "OpenStorage ?p0 \<in> set ?pre" by simp
    show ?thesis
    proof (cases ri)
      case (Inl e)
      have "take env pg pp pr pk path app_state replicated w = (Inl e, w3)"
        using Inr c rcr pc pp0 ti Inl by (simp add: take_def bind_def emit_def)
      moreover have "\<exists>e'. pop_rng_state app_state = Inl e'"
        using r3 Inl by (cases "pop_rng_state app_state") auto
      moreover have "\<forall>e'. pop_rng_state app_state = Inl e' \<longrightarrow> e' = e"
        using e3 Inl by auto
      moreover have "es2 = []" using e3 calculation(2) by auto
      then have "list_all (\<lambda>e. e = NewEventLoop \<or> e = OpenStorage ?p0 \<or> coalesce_event e) ?pre"
        using a1 by (auto simp: list_all_iff)
      ultimately show ?thesis using Inr tr3 apre
        by (intro exI [of _ "Inl e"] exI [of _ w3] exI [of _ ?pre] exI [of _ ?p0]) auto
    next
      case rir: (Inr y)
      have tk: "take env pg pp pr pk path app_state replicated w =
          bind (call env SyncComplete) (\<lambda>_.
          bind (emit Barrier) (\<lambda>_.
          bind (if get_rank pg = 0 then write_snapshot_metadata env else return ()) (\<lambda>_.
          bind (emit SyncClose) (\<lambda>_.
          bind (emit EventLoopClose) (\<lambda>_.
          return ?p0))))) w3"
        using Inr c rcr pc pp0 ti rir by (simp add: take_def bind_def emit_def)
      show ?thesis
      proof (cases "failure env SyncComplete")
        case (Some msg)
        have "take env pg pp pr pk path app_state replicated w =
                (Inl (External msg), w3\<lparr>trace := trace w3 @ [SyncComplete]\<rparr>)"
          unfolding tk using Some by (simp add: bind_def call_def)
        then show ?thesis using tr3 apre opre Some
          by (intro exI [of _ "Inl (External msg)"] exI [of _ "w3\<lparr>trace := trace w3 @ [SyncComplete]\<rparr>"]
                exI [of _ ?pre] exI [of _ ?p0]) simp
      next
        case None
        show ?thesis
        proof (cases "get_rank pg = 0")
          case False
          have "take env pg pp pr pk path app_state replicated w =
                (Inr ?p0, w3\<lparr>trace := trace w3 @ [SyncComplete, Barrier, SyncClose, EventLoopClose]\<rparr>)"
            unfolding tk using None False by (simp add: bind_def call_def emit_def return_def)
          then show ?thesis using tr3 apre opre None False
            by (intro exI [of _ "Inr ?p0"]
                  exI [of _ "w3\<lparr>trace := trace w3 @ [SyncComplete, Barrier, SyncClose, EventLoopClose]\<rparr>"]
                  exI [of _ ?pre] exI [of _ ?p0]) simp
        next
          case True
          show ?thesis
          proof (cases "failure env (SyncWrite SNAPSHOT_METADATA_FNAME)")
            case wm: (Some msg)
            have "take env pg pp pr pk path app_state replicated w =
                (Inl (External msg),
                 w3\<lparr>trace := trace w3 @ [SyncComplete, Barrier, SyncWrite SNAPSHOT_METADATA_FNAME]\<rparr>)"
              unfolding tk using None True wm
              by (simp add: bind_def call_def emit_def return_def write_snapshot_metadata_def)
            then show ?thesis using tr3 apre opre None True wm
              by (intro exI [of _ "Inl (External msg)"]
                  exI [of _ "w3\<lparr>trace := trace w3 @ [SyncComplete, Barrier, SyncWrite SNAPSHOT_METADATA_FNAME]\<rparr>"]
                  exI [of _ ?pre] exI [of _ ?p0]) simp
          next
            case wn: None
            have "take env pg pp pr pk path app_state replicated w =
                (Inr ?p0,
                 w3\<lparr>trace := trace w3 @ [SyncComplete, Barrier, SyncWrite SNAPSHOT_METADATA_FNAME,
                                            SyncClose, EventLoopClose]\<rparr>)"
              unfolding tk using None True wn
              by (simp add: bind_def call_def emit_def return_def write_snapshot_metadata_def)
            then show ?thesis using tr3 apre opre None True wn
              by (intro exI [of _ "Inr ?p0"]
                  exI [of _ "w3\<lparr>trace := trace w3 @ [SyncComplete, Barrier, SyncWrite SNAPSHOT_METADATA_FNAME,
                                            SyncClose, EventLoopClose]\<rparr>"]
                  exI [of _ ?pre] exI [of _ ?p0]) simp
          qed
        qed
      qed
    qed
  qed
qed

lemma not_SyncWrite_prefix:
  "list_all (\<lambda>e. e = NewEventLoop \<or> e = OpenStorage p0 \<or> coalesce_event e \<or> take_impl_event e) pre
     \<Longrightarrow> SyncWrite q \<notin> set pre"
  by (auto simp: list_all_iff)

text \<open>
  Claim C3. Whenever a run of \<^verbatim>\<open>Snapshot.take\<close> calls \<^verbatim>\<open>storage.sync_write\<close>, the rank
  is rank 0, the file is \<^verbatim>\<open>.snapshot_metadata\<close>, \<^verbatim>\<open>sync_complete\<close> has returned without
  raising, and the write comes right after \<^verbatim>\<open>sync_complete\<close> and the barrier; nothing
  before them is a \<^verbatim>\<open>sync_write\<close>, and after it the run only closes the storage and the
  event loop. So a rank other than 0 never writes the document, and no rank writes it
  before the barrier.
\<close>

theorem C3_metadata_commit:
  assumes "SyncWrite p \<in> set (events_of (take env pg pp pr pk path app_state replicated) w)"
  shows "get_rank pg = 0 \<and> p = SNAPSHOT_METADATA_FNAME \<and> p = ''.snapshot_metadata''
       \<and> failure env SyncComplete = None
       \<and> (\<exists>pre post. events_of (take env pg pp pr pk path app_state replicated) w =
                        pre @ [SyncComplete, Barrier, SyncWrite SNAPSHOT_METADATA_FNAME] @ post
             \<and> (\<forall>q. SyncWrite q \<notin> set pre)
             \<and> (post = [] \<or> post = [SyncClose, EventLoopClose]))"
proof -
  let ?t = "take env pg pp pr pk path app_state replicated"
  let ?Q = "\<lambda>p0 e. e = NewEventLoop \<or> e = OpenStorage p0 \<or> coalesce_event e \<or> take_impl_event e"
  obtain r w' pre p0 where run: "?t w = (r, w')" and pre: "list_all (?Q p0) pre"
    and cases: "trace w' = trace w @ pre
        \<or> trace w' = trace w @ pre @ [SyncComplete]
        \<or> trace w' = trace w @ pre @ [SyncComplete, Barrier, SyncClose, EventLoopClose]
        \<or> (trace w' = trace w @ pre @ [SyncComplete, Barrier, SyncWrite SNAPSHOT_METADATA_FNAME]
            \<and> failure env SyncComplete = None \<and> get_rank pg = 0)
        \<or> (trace w' = trace w @ pre @ [SyncComplete, Barrier, SyncWrite SNAPSHOT_METADATA_FNAME,
                                        SyncClose, EventLoopClose]
            \<and> failure env SyncComplete = None \<and> get_rank pg = 0)"
    using take_run [of env pg pp pr pk path app_state replicated w]
    by (elim exE conjE disjE) (rule that, assumption, assumption, simp)+
  have np: "\<And>q. SyncWrite q \<notin> set pre" using not_SyncWrite_prefix [OF pre] by simp
  have ev: "\<And>es. trace w' = trace w @ es \<Longrightarrow> events_of ?t w = es"
    using run events_of_eq [of ?t w] by simp
  have fn: "SNAPSHOT_METADATA_FNAME = ''.snapshot_metadata''" by (simp add: SNAPSHOT_METADATA_FNAME_def)
  from cases show ?thesis
  proof (elim disjE conjE)
    assume "trace w' = trace w @ pre"
    then have "events_of ?t w = pre" using ev by simp
    then show ?thesis using assms np by simp
  next
    assume "trace w' = trace w @ pre @ [SyncComplete]"
    then have "events_of ?t w = pre @ [SyncComplete]" using ev by simp
    then show ?thesis using assms np by simp
  next
    assume "trace w' = trace w @ pre @ [SyncComplete, Barrier, SyncClose, EventLoopClose]"
    then have "events_of ?t w = pre @ [SyncComplete, Barrier, SyncClose, EventLoopClose]" using ev by simp
    then show ?thesis using assms np by simp
  next
    assume t: "trace w' = trace w @ pre @ [SyncComplete, Barrier, SyncWrite SNAPSHOT_METADATA_FNAME]"
      and f: "failure env SyncComplete = None" and z: "get_rank pg = 0"
    have e: "events_of ?t w = pre @ [SyncComplete, Barrier, SyncWrite SNAPSHOT_METADATA_FNAME] @ []"
      using ev t by simp
    have "p = SNAPSHOT_METADATA_FNAME" using assms np e by simp
    then show ?thesis using e f z np fn by blast
  next
    assume t: "trace w' = trace w @ pre @ [SyncComplete, Barrier, SyncWrite SNAPSHOT_METADATA_FNAME,
                                        SyncClose, EventLoopClose]"
      and f: "failure env SyncComplete = None" and z: "get_rank pg = 0"
    have e: "events_of ?t w = pre @ [SyncComplete, Barrier, SyncWrite SNAPSHOT_METADATA_FNAME]
                 @ [SyncClose, EventLoopClose]"
      using ev t by simp
    have "p = SNAPSHOT_METADATA_FNAME" using assms np e by simp
    then show ?thesis using e f z np fn by blast
  qed
qed

lemmas run_defs = events_of_def bind_def emit_def call_def return_def raise_def
  all_gather_object_def broadcast_object_list_def dict_keys_def dict_del_def Let_def
  SNAPSHOT_METADATA_FNAME_def write_snapshot_metadata_def state_dict_def load_state_dict_def
  example_env_def example_world_def

lemma example_take_events:
  "events_of (take example_env \<lparr>get_rank = 0, get_world_size = 1\<rparr> [''/tmp/snap''] [[]] [[''model'']]
               ''/tmp/snap'' [(''model'', PlainStateful)] []) example_world =
     [NewEventLoop, BroadcastObjectList, AllGatherObject, OpenStorage ''/tmp/snap'',
      AllGatherObject, StateDict ''model'', Barrier,
      AllGatherObject, BroadcastObjectList, PartitionWriteReqs, AllGatherObject,
      GetProcessMemoryBudget, SyncExecuteWriteReqs,
      SyncComplete, Barrier, SyncWrite ''.snapshot_metadata'', SyncClose, EventLoopClose]"
  by (simp add: run_defs take_def coalesce_path_and_replicated_def take_impl_def pop_rng_state_def
      gather_keys_def infer_replicated_def coalesce_replicated_def)

text \<open>
  A run of rank 0 in a world of one rank, with no failure: the document is written.
\<close>

theorem C3_metadata_commit_witness:
  "SyncWrite ''.snapshot_metadata'' \<in> set (events_of
       (take example_env \<lparr>get_rank = 0, get_world_size = 1\<rparr> [''/tmp/snap''] [[]] [[''model'']]
               ''/tmp/snap'' [(''model'', PlainStateful)] []) example_world)
   \<and> failure example_env SyncComplete = None
   \<and> (\<exists>pre post. events_of
       (take example_env \<lparr>get_rank = 0, get_world_size = 1\<rparr> [''/tmp/snap''] [[]] [[''model'']]
               ''/tmp/snap'' [(''model'', PlainStateful)] []) example_world =
                        pre @ [SyncComplete, Barrier, SyncWrite SNAPSHOT_METADATA_FNAME] @ post
             \<and> (\<forall>q. SyncWrite q \<notin> set pre)
             \<and> (post = [] \<or> post = [SyncClose, EventLoopClose]))"
proof -
  have h: "SyncWrite ''.snapshot_metadata'' \<in> set (events_of
       (take example_env \<lparr>get_rank = 0, get_world_size = 1\<rparr> [''/tmp/snap''] [[]] [[''model'']]
               ''/tmp/snap'' [(''model'', PlainStateful)] []) example_world)"
    unfolding example_take_events by simp
  show ?thesis using h C3_metadata_commit [OF h] by blast
qed

subsection \<open>Runs of \<^verbatim>\<open>async_take\<close>, of a failing \<^verbatim>\<open>restore\<close> and of the commit body\<close>

lemma async_take_run:
  "\<exists>r w' pre p0.
      async_take env pg pp pr pk path app_state replicated w = (r, w')
    \<and> p0 = broadcast_object_list pp (get_rank pg) path 0
    \<and> list_all (\<lambda>e. e = NewEventLoop \<or> e = OpenStorage p0 \<or> coalesce_event e \<or> take_impl_event e) pre
    \<and> (  (trace w' = trace w @ pre \<and> (\<exists>e. r = Inl e)
            \<and> list_all (\<lambda>e. e = NewEventLoop \<or> e = OpenStorage p0 \<or> coalesce_event e) pre
            \<and> (\<forall>e. validate_app_state app_state = Inl e \<longrightarrow> r = Inl e \<and> pre = [])
            \<and> (\<forall>e. validate_app_state app_state = Inr () \<and> pr \<noteq> [] \<and> pop_rng_state app_state = Inl e \<longrightarrow> r = Inl e)
            \<and> (validate_app_state app_state = Inr () \<and> pr \<noteq> [] \<longrightarrow> (\<exists>e. pop_rng_state app_state = Inl e)))
        \<or> (trace w' = trace w @ pre @ [GetOrCreateStore] \<and> OpenStorage p0 \<in> set pre
            \<and> r = Inr \<lparr>pending_path = p0, exc_info = None, done_flag = False\<rparr>))"
proof (cases "validate_app_state app_state")
  case (Inl e)
  then have "async_take env pg pp pr pk path app_state replicated w = (Inl e, w)"
    by (simp add: async_take_def raise_def)
  then show ?thesis using Inl by auto
next
  case (Inr u)
  let ?p0 = "broadcast_object_list pp (get_rank pg) path 0"
  let ?w0 = "w\<lparr>trace := trace w @ [NewEventLoop]\<rparr>"
  obtain rc w1 es1 where c: "coalesce_path_and_replicated pg pp pr path app_state replicated ?w0 = (rc, w1)"
    and t1: "trace w1 = trace ?w0 @ es1" and a1: "list_all coalesce_event es1"
    and p1: "\<forall>p c. rc = Inr (p, c) \<longrightarrow> p = ?p0"
    and n1: "pr \<noteq> [] \<longrightarrow> (\<exists>c. rc = Inr (?p0, c))"
    using coalesce_run [of pg pp pr path app_state replicated ?w0] by blast
  show ?thesis
  proof (cases rc)
    case (Inl e)
    have "async_take env pg pp pr pk path app_state replicated w = (Inl e, w1)"
      using Inr c Inl by (simp add: async_take_def bind_def emit_def)
    moreover have "trace w1 = trace w @ NewEventLoop # es1" using t1 by simp
    moreover have "list_all (\<lambda>e. e = NewEventLoop \<or> e = OpenStorage ?p0 \<or> coalesce_event e \<or> take_impl_event e)
                     (NewEventLoop # es1)"
      using a1 by (auto simp: list_all_iff)
    moreover have "list_all (\<lambda>e. e = NewEventLoop \<or> e = OpenStorage ?p0 \<or> coalesce_event e)
                     (NewEventLoop # es1)"
      using a1 by (auto simp: list_all_iff)
    moreover have "pr = []" using n1 Inl by auto
    ultimately show ?thesis using Inr
      by (intro exI [of _ "Inl e"] exI [of _ w1] exI [of _ "NewEventLoop # es1"] exI [of _ ?p0]) simp
  next
    case rcr: (Inr pc)
    obtain p c0 where pc: "pc = (p, c0)" by (cases pc)
    have pp0: "p = ?p0" using p1 rcr pc by simp
    let ?w2 = "w1\<lparr>trace := trace w1 @ [OpenStorage ?p0]\<rparr>"
    obtain ri w3 es2 where ti: "take_impl env pg pk app_state ?w2 = (ri, w3)"
      and t3: "trace w3 = trace ?w2 @ es2" and a3: "list_all take_impl_event es2"
      and e3: "\<forall>e. pop_rng_state app_state = Inl e \<longrightarrow> ri = Inl e \<and> es2 = []"
      and r3: "\<forall>x. pop_rng_state app_state = Inr x \<longrightarrow> (\<exists>y. ri = Inr y)"
      using take_impl_run [of env pg pk app_state ?w2] by (elim exE conjE) (rule that; assumption)
    let ?pre = "NewEventLoop # es1 @ OpenStorage ?p0 # es2"
    have tr3: "trace w3 = trace w @ ?pre" using t1 t3 by simp
    have apre: "list_all (\<lambda>e. e = NewEventLoop \<or> e = OpenStorage ?p0 \<or> coalesce_event e \<or> take_impl_event e) ?pre"
      using a1 a3 by (auto simp: list_all_iff)
    have opre: "OpenStorage ?p0 \<in> set ?pre" by simp
    show ?thesis
    proof (cases ri)
      case (Inl e)
      have "async_take env pg pp pr pk path app_state replicated w = (Inl e, w3)"
        using Inr c rcr pc pp0 ti Inl by (simp add: async_take_def bind_def emit_def)
      moreover have "\<exists>e'. pop_rng_state app_state = Inl e'"
        using r3 Inl by (cases "pop_rng_state app_state") auto
      moreover have "\<forall>e'. pop_rng_state app_state = Inl e' \<longrightarrow> e' = e"
        using e3 Inl by auto
      moreover have "es2 = []" using e3 calculation(2) by auto
      then have "list_all (\<lambda>e. e = NewEventLoop \<or> e = OpenStorage ?p0 \<or> coalesce_event e) ?pre"
        using a1 by (auto simp: list_all_iff)
      ultimately show ?thesis using Inr tr3 apre
        by (intro exI [of _ "Inl e"] exI [of _ w3] exI [of _ ?pre] exI [of _ ?p0]) auto
    next
      case rir: (Inr y)
      have "async_take env pg pp pr pk path app_state replicated w =
              (Inr \<lparr>pending_path = ?p0, exc_info = None, done_flag = False\<rparr>,
               w3\<lparr>trace := trace w3 @ [GetOrCreateStore]\<rparr>)"
        using Inr c rcr pc pp0 ti rir by (simp add: async_take_def bind_def emit_def return_def)
      then show ?thesis using tr3 apre opre
        by (intro exI [of _ "Inr \<lparr>pending_path = ?p0, exc_info = None, done_flag = False\<rparr>"]
              exI [of _ "w3\<lparr>trace := trace w3 @ [GetOrCreateStore]\<rparr>"]
              exI [of _ ?pre] exI [of _ ?p0]) simp
    qed
  qed
qed

lemma restore_validate_Inl:
  "validate_app_state a0 = Inl e \<Longrightarrow> restore env pg pk self_path a0 w = (Inl e, w)"
  by (simp add: restore_def raise_def)

lemma restore_pop_Inl:
  "validate_app_state a0 = Inr () \<Longrightarrow> pop_rng_state a0 = Inl e \<Longrightarrow>
     restore env pg pk self_path a0 w = (Inl e, w\<lparr>trace := trace w @ [NewEventLoop, OpenStorage self_path]\<rparr>)"
  by (simp add: restore_def raise_def bind_def emit_def)

lemma validate_app_state_Inr:
  "validate_app_state a = Inr () \<longleftrightarrow> (\<forall>kv \<in> set a. isinstance_Stateful (snd kv))"
  by (induction a rule: validate_app_state.induct) auto

lemma validate_app_state_Inl:
  "(\<exists>e. validate_app_state a = Inl e) \<longleftrightarrow> (\<exists>kv \<in> set a. \<not> isinstance_Stateful (snd kv))"
  using validate_app_state_Inr [of a] by (cases "validate_app_state a") auto

lemma pop_rng_state_Inl:
  "(\<exists>e. pop_rng_state a = Inl e) \<longleftrightarrow> 1 < length (filter (\<lambda>(key, stateful). isinstance_RNGState stateful) a)"
  by (auto simp: pop_rng_state_def Let_def split: list.splits)

lemma commit_body_run:
  "\<exists>r w1 es. commit_body env rank w = (r, w1) \<and> trace w1 = trace w @ es
      \<and> rng w1 = rng w \<and> cached_metadata w1 = cached_metadata w
      \<and> list_all (\<lambda>e. e = SyncComplete \<or> e = Arrive \<or> e = Depart \<or> e = SyncWrite SNAPSHOT_METADATA_FNAME) es
      \<and> ((\<exists>e. r = Inl e) \<longleftrightarrow>
            failure env SyncComplete \<noteq> None \<or> failure env Arrive \<noteq> None
            \<or> (rank = 0 \<and> failure env (SyncWrite SNAPSHOT_METADATA_FNAME) \<noteq> None)
            \<or> failure env Depart \<noteq> None)
      \<and> (\<forall>e. r = Inl e \<longrightarrow> (\<exists>msg ev. e = External msg \<and> failure env ev = Some msg \<and> es \<noteq> [] \<and> last es = ev))"
  by (cases "failure env SyncComplete"; cases "failure env Arrive";
      cases "failure env (SyncWrite SNAPSHOT_METADATA_FNAME)"; cases "failure env Depart"; cases "rank = 0")
     (simp_all add: commit_body_def bind_def call_def return_def write_snapshot_metadata_def)

lemma complete_snapshot_Inl:
  "commit_body env rank w = (Inl e, w1) \<Longrightarrow>
     complete_snapshot env rank self w =
       (Inr (self\<lparr>exc_info := Some e, done_flag := True\<rparr>),
        w1\<lparr>trace := trace w1 @ [ReportError e, LogWarning (AsyncTakeException e), SyncClose, EventLoopClose]\<rparr>)"
  by (simp add: complete_snapshot_def bind_def emit_def return_def)

lemma complete_snapshot_Inr:
  "commit_body env rank w = (Inr u, w1) \<Longrightarrow>
     complete_snapshot env rank self w =
       (Inr (self\<lparr>done_flag := True\<rparr>), w1\<lparr>trace := trace w1 @ [SyncClose, EventLoopClose]\<rparr>)"
  by (simp add: complete_snapshot_def bind_def emit_def return_def)

subsection \<open>Validation of \<^verbatim>\<open>app_state\<close>\<close>

lemma coalesce_no_storage_io: "list_all coalesce_event es \<Longrightarrow> list_all (\<lambda>ev. \<not> storage_io ev) es"
proof -
  have "\<And>ev. coalesce_event ev \<Longrightarrow> \<not> storage_io ev"
    by (erule coalesce_event.elims) simp_all
  then show "list_all coalesce_event es \<Longrightarrow> list_all (\<lambda>ev. \<not> storage_io ev) es"
    by (auto simp: list_all_iff)
qed

lemma take_pop_Inl:
  assumes v: "validate_app_state app_state = Inr ()" and n: "pr \<noteq> []" and p: "pop_rng_state app_state = Inl e"
  shows "\<exists>w' es. take env pg pp pr pk path app_state replicated w = (Inl e, w')
           \<and> trace w' = trace w @ es \<and> list_all (\<lambda>ev. \<not> storage_io ev) es"
proof -
  let ?p0 = "broadcast_object_list pp (get_rank pg) path 0"
  let ?w0 = "w\<lparr>trace := trace w @ [NewEventLoop]\<rparr>"
  obtain rc w1 es1 where c: "coalesce_path_and_replicated pg pp pr path app_state replicated ?w0 = (rc, w1)"
    and t1: "trace w1 = trace ?w0 @ es1" and a1: "list_all coalesce_event es1"
    and n1: "pr \<noteq> [] \<longrightarrow> (\<exists>c. rc = Inr (?p0, c))"
    using coalesce_run [of pg pp pr path app_state replicated ?w0] by blast
  obtain c0 where rc: "rc = Inr (?p0, c0)" using n n1 by blast
  let ?w2 = "w1\<lparr>trace := trace w1 @ [OpenStorage ?p0]\<rparr>"
  have ti: "take_impl env pg pk app_state ?w2 = (Inl e, ?w2)" using take_impl_Inl [OF p] by simp
  have "take env pg pp pr pk path app_state replicated w = (Inl e, ?w2)"
    using v c rc ti by (simp add: take_def bind_def emit_def)
  moreover have "trace ?w2 = trace w @ (NewEventLoop # es1 @ [OpenStorage ?p0])" using t1 by simp
  moreover have "list_all (\<lambda>ev. \<not> storage_io ev) (NewEventLoop # es1 @ [OpenStorage ?p0])"
    using coalesce_no_storage_io [OF a1] by simp
  ultimately show ?thesis by blast
qed

lemma async_take_pop_Inl:
  assumes v: "validate_app_state app_state = Inr ()" and n: "pr \<noteq> []" and p: "pop_rng_state app_state = Inl e"
  shows "\<exists>w' es. async_take env pg pp pr pk path app_state replicated w = (Inl e, w')
           \<and> trace w' = trace w @ es \<and> list_all (\<lambda>ev. \<not> storage_io ev) es"
proof -
  let ?p0 = "broadcast_object_list pp (get_rank pg) path 0"
  let ?w0 = "w\<lparr>trace := trace w @ [NewEventLoop]\<rparr>"
  obtain rc w1 es1 where c: "coalesce_path_and_replicated pg pp pr path app_state replicated ?w0 = (rc, w1)"
    and t1: "trace w1 = trace ?w0 @ es1" and a1: "list_all coalesce_event es1"
    and n1: "pr \<noteq> [] \<longrightarrow> (\<exists>c. rc = Inr (?p0, c))"
    using coalesce_run [of pg pp pr path app_state replicated ?w0] by blast
  obtain c0 where rc: "rc = Inr (?p0, c0)" using n n1 by blast
  let ?w2 = "w1\<lparr>trace := trace w1 @ [OpenStorage ?p0]\<rparr>"
  have ti: "take_impl env pg pk app_state ?w2 = (Inl e, ?w2)" using take_impl_Inl [OF p] by simp
  have "async_take env pg pp pr pk path app_state replicated w = (Inl e, ?w2)"
    using v c rc ti by (simp add: async_take_def bind_def emit_def)
  moreover have "trace ?w2 = trace w @ (NewEventLoop # es1 @ [OpenStorage ?p0])" using t1 by simp
  moreover have "list_all (\<lambda>ev. \<not> storage_io ev) (NewEventLoop # es1 @ [OpenStorage ?p0])"
    using coalesce_no_storage_io [OF a1] by simp
  ultimately show ?thesis by blast
qed

lemma validate_app_state_error: "validate_app_state a = Inl e \<Longrightarrow> \<exists>k. e = TypeError_not_Stateful k"
  by (induction a rule: validate_app_state.induct) (auto split: if_splits)

lemma pop_rng_state_error: "pop_rng_state a = Inl e \<Longrightarrow> \<exists>ks. e = RuntimeError_multiple_RNGState ks"
  by (auto simp: pop_rng_state_def Let_def split: if_splits list.splits)

lemma raises_before_io:
  assumes "m w = (Inl e, w')" and "trace w' = trace w @ es" and "list_all (\<lambda>ev. \<not> storage_io ev) es"
  shows "fst (m w) = Inl e \<and> list_all (\<lambda>ev. \<not> storage_io ev) (events_of m w)"
  using assms events_of_eq [of m w es] by simp

text \<open>
  Claim C7. In a world of at least one rank: when \<^verbatim>\<open>app_state\<close> holds a value that is not
  \<^verbatim>\<open>Stateful\<close>, or more than one \<^verbatim>\<open>RNGState\<close>, then \<^verbatim>\<open>take\<close>, \<^verbatim>\<open>async_take\<close> and
  \<^verbatim>\<open>restore\<close> raise (the \<^verbatim>\<open>TypeError\<close> of \<^verbatim>\<open>_validate_app_state\<close> or the
  \<^verbatim>\<open>RuntimeError\<close> of \<^verbatim>\<open>_pop_rng_state\<close>), and up to the raise no read or write has
  reached the storage and nothing was handed to the scheduler (for the second error the
  storage plug-in has been constructed). When all values are \<^verbatim>\<open>Stateful\<close> and at most one
  is an \<^verbatim>\<open>RNGState\<close>, neither check raises.
\<close>

theorem C7_validation:
  assumes "pr \<noteq> []"
  shows "((\<exists>kv \<in> set app_state. \<not> isinstance_Stateful (snd kv))
           \<or> 1 < length (filter (\<lambda>(key, stateful). isinstance_RNGState stateful) app_state)
         \<longrightarrow> (\<exists>e. ((\<exists>k. e = TypeError_not_Stateful k) \<or> (\<exists>ks. e = RuntimeError_multiple_RNGState ks))
                \<and> fst (take env pg pp pr pk path app_state replicated w) = Inl e
                \<and> list_all (\<lambda>ev. \<not> storage_io ev)
                     (events_of (take env pg pp pr pk path app_state replicated) w)
                \<and> fst (async_take env pg pp pr pk path app_state replicated w) = Inl e
                \<and> list_all (\<lambda>ev. \<not> storage_io ev)
                     (events_of (async_take env pg pp pr pk path app_state replicated) w)
                \<and> fst (restore env pg pk self_path app_state w) = Inl e
                \<and> list_all (\<lambda>ev. \<not> storage_io ev)
                     (events_of (restore env pg pk self_path app_state) w)))
       \<and> ((\<forall>kv \<in> set app_state. isinstance_Stateful (snd kv))
           \<and> length (filter (\<lambda>(key, stateful). isinstance_RNGState stateful) app_state) \<le> 1
         \<longrightarrow> validate_app_state app_state = Inr () \<and> (\<exists>x. pop_rng_state app_state = Inr x))"
proof (intro conjI impI)
  assume bad: "(\<exists>kv \<in> set app_state. \<not> isinstance_Stateful (snd kv))
           \<or> 1 < length (filter (\<lambda>(key, stateful). isinstance_RNGState stateful) app_state)"
  let ?take = "take env pg pp pr pk path app_state replicated"
  let ?async = "async_take env pg pp pr pk path app_state replicated"
  let ?restore = "restore env pg pk self_path app_state"
  show "\<exists>e. ((\<exists>k. e = TypeError_not_Stateful k) \<or> (\<exists>ks. e = RuntimeError_multiple_RNGState ks))
                \<and> fst (?take w) = Inl e \<and> list_all (\<lambda>ev. \<not> storage_io ev) (events_of ?take w)
                \<and> fst (?async w) = Inl e \<and> list_all (\<lambda>ev. \<not> storage_io ev) (events_of ?async w)
                \<and> fst (?restore w) = Inl e \<and> list_all (\<lambda>ev. \<not> storage_io ev) (events_of ?restore w)"
  proof (cases "validate_app_state app_state")
    case (Inl e)
    obtain k where k: "e = TypeError_not_Stateful k" using validate_app_state_error [OF Inl] by blast
    have t: "?take w = (Inl e, w)" using Inl by (simp add: take_def raise_def)
    have a: "?async w = (Inl e, w)" using Inl by (simp add: async_take_def raise_def)
    have r: "?restore w = (Inl e, w)" using restore_validate_Inl [OF Inl] by simp
    have "fst (?take w) = Inl e \<and> list_all (\<lambda>ev. \<not> storage_io ev) (events_of ?take w)"
      using raises_before_io [of ?take w e w "[]"] t by simp
    moreover have "fst (?async w) = Inl e \<and> list_all (\<lambda>ev. \<not> storage_io ev) (events_of ?async w)"
      using raises_before_io [of ?async w e w "[]"] a by simp
    moreover have "fst (?restore w) = Inl e \<and> list_all (\<lambda>ev. \<not> storage_io ev) (events_of ?restore w)"
      using raises_before_io [of ?restore w e w "[]"] r by simp
    ultimately show ?thesis using k by blast
  next
    case (Inr u)
    then have v: "validate_app_state app_state = Inr ()" by simp
    then have "\<not> (\<exists>kv \<in> set app_state. \<not> isinstance_Stateful (snd kv))"
      using validate_app_state_Inr [of app_state] by simp
    then have "1 < length (filter (\<lambda>(key, stateful). isinstance_RNGState stateful) app_state)"
      using bad by blast
    then obtain e where p: "pop_rng_state app_state = Inl e"
      using pop_rng_state_Inl [of app_state] by blast
    obtain ks where ks: "e = RuntimeError_multiple_RNGState ks" using pop_rng_state_error [OF p] by blast
    obtain wt est where t: "?take w = (Inl e, wt)" "trace wt = trace w @ est"
        "list_all (\<lambda>ev. \<not> storage_io ev) est"
      using take_pop_Inl [OF v assms p] by blast
    obtain wa esa where a: "?async w = (Inl e, wa)" "trace wa = trace w @ esa"
        "list_all (\<lambda>ev. \<not> storage_io ev) esa"
      using async_take_pop_Inl [OF v assms p] by blast
    have r: "?restore w = (Inl e, w\<lparr>trace := trace w @ [NewEventLoop, OpenStorage self_path]\<rparr>)"
      using restore_pop_Inl [OF v p] by simp
    have "fst (?take w) = Inl e \<and> list_all (\<lambda>ev. \<not> storage_io ev) (events_of ?take w)"
      using raises_before_io [of ?take w e wt est] t by blast
    moreover have "fst (?async w) = Inl e \<and> list_all (\<lambda>ev. \<not> storage_io ev) (events_of ?async w)"
      using raises_before_io [of ?async w e wa esa] a by blast
    moreover have "fst (?restore w) = Inl e \<and> list_all (\<lambda>ev. \<not> storage_io ev) (events_of ?restore w)"
      using raises_before_io [of ?restore w e "w\<lparr>trace := trace w @ [NewEventLoop, OpenStorage self_path]\<rparr>" "[NewEventLoop, OpenStorage self_path]"] r by simp
    ultimately show ?thesis using ks by blast
  qed
next
  assume ok: "(\<forall>kv \<in> set app_state. isinstance_Stateful (snd kv))
           \<and> length (filter (\<lambda>(key, stateful). isinstance_RNGState stateful) app_state) \<le> 1"
  show "validate_app_state app_state = Inr ()" using ok validate_app_state_Inr [of app_state] by simp
next
  assume ok: "(\<forall>kv \<in> set app_state. isinstance_Stateful (snd kv))
           \<and> length (filter (\<lambda>(key, stateful). isinstance_RNGState stateful) app_state) \<le> 1"
  then have "\<not> (\<exists>e. pop_rng_state app_state = Inl e)"
    using pop_rng_state_Inl [of app_state] by simp
  then show "\<exists>x. pop_rng_state app_state = Inr x"
    by (cases "pop_rng_state app_state") auto
qed

subsection \<open>The coalesced path\<close>

lemma prefix_OpenStorage:
  "list_all (\<lambda>e. e = NewEventLoop \<or> e = OpenStorage p0 \<or> coalesce_event e \<or> take_impl_event e) pre
     \<Longrightarrow> OpenStorage q \<in> set pre \<Longrightarrow> q = p0"
  by (auto simp: list_all_iff)

lemma broadcast_own: "broadcast_object_list paths r (paths ! r) 0 = paths ! 0"
  by (simp add: broadcast_object_list_def)

lemma wait_path: "wait h = Inr p \<Longrightarrow> p = pending_path h"
  by (simp add: wait_def split: option.splits)

lemma complete_snapshot_path:
  "fst (complete_snapshot env rank h w) = Inr h' \<Longrightarrow> pending_path h' = pending_path h"
proof -
  assume a: "fst (complete_snapshot env rank h w) = Inr h'"
  obtain r w1 where c: "commit_body env rank w = (r, w1)" by (cases "commit_body env rank w")
  show ?thesis
  proof (cases r)
    case (Inl e)
    then show ?thesis using a complete_snapshot_Inl [of env rank w e w1 h] c by auto
  next
    case (Inr u)
    then show ?thesis using a complete_snapshot_Inr [of env rank w u w1 h] c by auto
  qed
qed

text \<open>
  Claim C6. \<open>paths\<close> holds the path every rank proposes. At any rank of a non-empty world,
  \<^verbatim>\<open>_coalesce_path_and_replicated\<close> returns rank 0's path and does not raise; it logs the
  path warning iff the rank's own path differs. Every storage plug-in that \<^verbatim>\<open>take\<close> and
  \<^verbatim>\<open>async_take\<close> open is opened at rank 0's path, the \<^verbatim>\<open>Snapshot\<close> that \<^verbatim>\<open>take\<close>
  returns and the handle that \<^verbatim>\<open>async_take\<close> returns carry rank 0's path, and \<^verbatim>\<open>wait\<close>
  returns a \<^verbatim>\<open>Snapshot\<close> with the handle's path.
\<close>

theorem C6_path_coalescing:
  assumes "get_rank pg < length paths" and "pr \<noteq> []"
  shows "(\<exists>c. fst (coalesce_path_and_replicated pg paths pr (paths ! get_rank pg) app_state replicated w)
               = Inr (paths ! 0, c))
       \<and> (LogWarning (PathDiffers (get_rank pg) (paths ! get_rank pg) (paths ! 0))
            \<in> set (events_of (coalesce_path_and_replicated pg paths pr (paths ! get_rank pg)
                                app_state replicated) w)
          \<longleftrightarrow> paths ! get_rank pg \<noteq> paths ! 0)
       \<and> (\<forall>q. OpenStorage q \<in> set (events_of (take env pg paths pr pk (paths ! get_rank pg)
                                                  app_state replicated) w) \<longrightarrow> q = paths ! 0)
       \<and> (\<forall>p. fst (take env pg paths pr pk (paths ! get_rank pg) app_state replicated w) = Inr p
              \<longrightarrow> p = paths ! 0)
       \<and> (\<forall>q. OpenStorage q \<in> set (events_of (async_take env pg paths pr pk (paths ! get_rank pg)
                                                  app_state replicated) w) \<longrightarrow> q = paths ! 0)
       \<and> (\<forall>h. fst (async_take env pg paths pr pk (paths ! get_rank pg) app_state replicated w) = Inr h
              \<longrightarrow> pending_path h = paths ! 0)
       \<and> (\<forall>h h' w1 p. fst (complete_snapshot env (get_rank pg) h w1) = Inr h' \<and> wait h' = Inr p
              \<longrightarrow> p = pending_path h)"
proof -
  let ?path = "paths ! get_rank pg"
  let ?co = "coalesce_path_and_replicated pg paths pr ?path app_state replicated"
  let ?take = "take env pg paths pr pk ?path app_state replicated"
  let ?async = "async_take env pg paths pr pk ?path app_state replicated"
  let ?Q = "\<lambda>e. e = NewEventLoop \<or> e = OpenStorage (paths ! 0) \<or> coalesce_event e \<or> take_impl_event e"
  have b: "broadcast_object_list paths (get_rank pg) ?path 0 = paths ! 0" by (rule broadcast_own)
  obtain rc wc esc where c: "?co w = (rc, wc)" and tc: "trace wc = trace w @ esc"
    and nc: "pr \<noteq> [] \<longrightarrow> (\<exists>c. rc = Inr (paths ! 0, c))"
    and lc: "LogWarning (PathDiffers (get_rank pg) ?path (paths ! 0)) \<in> set esc \<longleftrightarrow> paths ! 0 \<noteq> ?path"
    using coalesce_run [of pg paths pr ?path app_state replicated w] unfolding b by blast
  have c1: "\<exists>c. fst (?co w) = Inr (paths ! 0, c)" using c nc assms(2) by auto
  have ec: "events_of ?co w = esc" using events_of_eq [of ?co w esc] c tc by simp
  have c2: "LogWarning (PathDiffers (get_rank pg) ?path (paths ! 0)) \<in> set (events_of ?co w)
          \<longleftrightarrow> ?path \<noteq> paths ! 0"
    unfolding ec using lc by auto
  obtain r w' pre where t: "?take w = (r, w')" and tp: "list_all ?Q pre"
    and tcases: "(trace w' = trace w @ pre \<and> (\<exists>e. r = Inl e))
        \<or> (trace w' = trace w @ pre @ [SyncComplete] \<and> (\<exists>e. r = Inl e))
        \<or> (trace w' = trace w @ pre @ [SyncComplete, Barrier, SyncClose, EventLoopClose] \<and> r = Inr (paths ! 0))
        \<or> (trace w' = trace w @ pre @ [SyncComplete, Barrier, SyncWrite SNAPSHOT_METADATA_FNAME] \<and> (\<exists>e. r = Inl e))
        \<or> (trace w' = trace w @ pre @ [SyncComplete, Barrier, SyncWrite SNAPSHOT_METADATA_FNAME,
                                        SyncClose, EventLoopClose] \<and> r = Inr (paths ! 0))"
    using take_run [of env pg paths pr pk ?path app_state replicated w] unfolding b
    by (elim exE conjE disjE) (rule that, assumption, simp, blast)+
  have t1: "\<And>q. OpenStorage q \<in> set (events_of ?take w) \<Longrightarrow> q = paths ! 0"
  proof -
    fix q assume q: "OpenStorage q \<in> set (events_of ?take w)"
    have ev: "\<And>es. trace w' = trace w @ es \<Longrightarrow> events_of ?take w = es"
      using t events_of_eq [of ?take w] by simp
    have "OpenStorage q \<in> set pre"
      using tcases q by (elim disjE conjE) (frule ev, simp)+
    then show "q = paths ! 0" using prefix_OpenStorage [OF tp] by simp
  qed
  have t2: "\<And>p. fst (?take w) = Inr p \<Longrightarrow> p = paths ! 0"
    using tcases t by auto
  obtain ra wa prea where a: "?async w = (ra, wa)" and ap: "list_all ?Q prea"
    and acases: "(trace wa = trace w @ prea \<and> (\<exists>e. ra = Inl e))
        \<or> (trace wa = trace w @ prea @ [GetOrCreateStore]
            \<and> ra = Inr \<lparr>pending_path = paths ! 0, exc_info = None, done_flag = False\<rparr>)"
    using async_take_run [of env pg paths pr pk ?path app_state replicated w] unfolding b
    by (elim exE conjE disjE) (rule that, assumption, simp, blast)+
  have a1: "\<And>q. OpenStorage q \<in> set (events_of ?async w) \<Longrightarrow> q = paths ! 0"
  proof -
    fix q assume q: "OpenStorage q \<in> set (events_of ?async w)"
    have ev: "\<And>es. trace wa = trace w @ es \<Longrightarrow> events_of ?async w = es"
      using a events_of_eq [of ?async w] by simp
    have "OpenStorage q \<in> set prea"
      using acases q by (elim disjE conjE) (frule ev, simp)+
    then show "q = paths ! 0" using prefix_OpenStorage [OF ap] by simp
  qed
  have a2: "\<And>h. fst (?async w) = Inr h \<Longrightarrow> pending_path h = paths ! 0"
    using acases a by auto
  have w: "\<And>h h' w1 p. fst (complete_snapshot env (get_rank pg) h w1) = Inr h' \<and> wait h' = Inr p
              \<Longrightarrow> p = pending_path h"
    using complete_snapshot_path wait_path by metis
  show ?thesis
    apply (intro conjI allI impI)
          apply (rule c1)
         apply (rule c2)
        apply (erule t1)
       apply (erule t2)
      apply (erule a1)
     apply (erule a2)
    apply (erule w)
    done
qed

text \<open>
  Rank 1 proposes \<open>/b\<close>, rank 0 proposes \<open>/a\<close>: rank 1 gets \<open>/a\<close> and logs the warning.
\<close>

theorem C6_path_coalescing_witness:
  "(\<exists>c. fst (coalesce_path_and_replicated \<lparr>get_rank = 1, get_world_size = 2\<rparr> [''/a'', ''/b''] [[], []]
                ''/b'' [(''model'', PlainStateful)] [] example_world) = Inr (''/a'', c))
   \<and> LogWarning (PathDiffers 1 ''/b'' ''/a'')
        \<in> set (events_of (coalesce_path_and_replicated \<lparr>get_rank = 1, get_world_size = 2\<rparr>
                            [''/a'', ''/b''] [[], []] ''/b'' [(''model'', PlainStateful)] []) example_world)"
proof -
  have h1: "get_rank \<lparr>get_rank = 1, get_world_size = 2\<rparr> < length [''/a'', ''/b'']" by simp
  have h2: "[[], []] \<noteq> ([] :: string list list)" by simp
  note T = C6_path_coalescing [OF h1 h2, where app_state = "[(''model'', PlainStateful)]"
      and replicated = "[]" and w = example_world and env = example_env and pk = "[]"]
  note T1 = T [THEN conjunct1]
  note T2 = T [THEN conjunct2, THEN conjunct1]
  have a: "\<exists>c. fst (coalesce_path_and_replicated \<lparr>get_rank = 1, get_world_size = 2\<rparr> [''/a'', ''/b''] [[], []]
                ''/b'' [(''model'', PlainStateful)] [] example_world) = Inr (''/a'', c)"
    using T1 by simp
  have b: "LogWarning (PathDiffers 1 ''/b'' ''/a'')
        \<in> set (events_of (coalesce_path_and_replicated \<lparr>get_rank = 1, get_world_size = 2\<rparr>
                            [''/a'', ''/b''] [[], []] ''/b'' [(''model'', PlainStateful)] []) example_world)"
    using T2 by simp
  show ?thesis using a b by blast
qed

text \<open>
  Two \<^verbatim>\<open>RNGState\<close> components make all three operations raise before any storage I/O; one
  does not.
\<close>

theorem C7_validation_witness:
  "(\<exists>e. ((\<exists>k. e = TypeError_not_Stateful k) \<or> (\<exists>ks. e = RuntimeError_multiple_RNGState ks))
      \<and> fst (take example_env \<lparr>get_rank = 0, get_world_size = 1\<rparr> [''/tmp/snap''] [[]] [[''model'']]
               ''/tmp/snap'' [(''model'', PlainStateful), (''a'', RNGState), (''b'', RNGState)] []
               example_world) = Inl e
      \<and> list_all (\<lambda>ev. \<not> storage_io ev)
           (events_of (take example_env \<lparr>get_rank = 0, get_world_size = 1\<rparr> [''/tmp/snap''] [[]] [[''model'']]
               ''/tmp/snap'' [(''model'', PlainStateful), (''a'', RNGState), (''b'', RNGState)] [])
               example_world)
      \<and> fst (async_take example_env \<lparr>get_rank = 0, get_world_size = 1\<rparr> [''/tmp/snap''] [[]] [[''model'']]
               ''/tmp/snap'' [(''model'', PlainStateful), (''a'', RNGState), (''b'', RNGState)] []
               example_world) = Inl e
      \<and> list_all (\<lambda>ev. \<not> storage_io ev)
           (events_of (async_take example_env \<lparr>get_rank = 0, get_world_size = 1\<rparr> [''/tmp/snap''] [[]] [[''model'']]
               ''/tmp/snap'' [(''model'', PlainStateful), (''a'', RNGState), (''b'', RNGState)] [])
               example_world)
      \<and> fst (restore example_env \<lparr>get_rank = 0, get_world_size = 1\<rparr> [[''model'']] ''/tmp/snap''
               [(''model'', PlainStateful), (''a'', RNGState), (''b'', RNGState)] example_world) = Inl e
      \<and> list_all (\<lambda>ev. \<not> storage_io ev)
           (events_of (restore example_env \<lparr>get_rank = 0, get_world_size = 1\<rparr> [[''model'']] ''/tmp/snap''
               [(''model'', PlainStateful), (''a'', RNGState), (''b'', RNGState)]) example_world))
   \<and> validate_app_state [(''model'', PlainStateful), (''rng'', RNGState)] = Inr ()
   \<and> (\<exists>x. pop_rng_state [(''model'', PlainStateful), (''rng'', RNGState)] = Inr x)"
proof -
  have h: "[[]] \<noteq> ([] :: string list list)" by simp
  let ?bad = "[(''model'', PlainStateful), (''a'', RNGState), (''b'', RNGState)]"
  let ?good = "[(''model'', PlainStateful), (''rng'', RNGState)]"
  have b: "(\<exists>kv \<in> set ?bad. \<not> isinstance_Stateful (snd kv))
           \<or> 1 < length (filter (\<lambda>(key, stateful). isinstance_RNGState stateful) ?bad)" by simp
  have g: "(\<forall>kv \<in> set ?good. isinstance_Stateful (snd kv))
           \<and> length (filter (\<lambda>(key, stateful). isinstance_RNGState stateful) ?good) \<le> 1" by simp
  note B = C7_validation [OF h, where app_state = ?bad and env = example_env and w = example_world
      and pg = "\<lparr>get_rank = 0, get_world_size = 1\<rparr>" and pp = "[''/tmp/snap'']" and pk = "[[''model'']]"
      and path = "''/tmp/snap''" and replicated = "[]" and self_path = "''/tmp/snap''",
      THEN conjunct1, THEN mp, OF b]
  note G = C7_validation [OF h, where app_state = ?good and env = example_env and w = example_world
      and pg = "\<lparr>get_rank = 0, get_world_size = 1\<rparr>" and pp = "[''/tmp/snap'']" and pk = "[[''model'']]"
      and path = "''/tmp/snap''" and replicated = "[]" and self_path = "''/tmp/snap''",
      THEN conjunct2, THEN mp, OF g]
  show ?thesis by (rule conjI [OF B G])
qed

subsection \<open>The background commit and its handle\<close>

text \<open>
  Claim C5. When the \<^verbatim>\<open>try\<close> body of \<^verbatim>\<open>_complete_snapshot\<close> raises \<open>e\<close> (an exception of
  \<^verbatim>\<open>sync_complete\<close>, of \<^verbatim>\<open>arrive\<close>, of the leader's metadata write or of \<^verbatim>\<open>depart\<close>),
  \<^verbatim>\<open>report_error\<close> is called with it, the handle's \<^verbatim>\<open>exc_info\<close> holds it, and \<^verbatim>\<open>wait\<close>
  raises the \<^verbatim>\<open>RuntimeError\<close> built from it. When the body does not raise,
  \<^verbatim>\<open>report_error\<close> is not called and \<^verbatim>\<open>wait\<close> returns the \<^verbatim>\<open>Snapshot\<close> of the handle's
  path. The body raises iff one of its calls fails. \<^verbatim>\<open>done\<close> reads the flag: it is false
  on the handle \<^verbatim>\<open>async_take\<close> returns and true once the thread has finished, whether
  the body raised or not.
\<close>

theorem C5_async_commit:
  "(\<forall>e. fst (commit_body env rank w) = Inl e \<longrightarrow>
        ReportError e \<in> set (events_of (complete_snapshot env rank self) w)
      \<and> (\<exists>msg. e = External msg)
      \<and> (\<exists>self'. fst (complete_snapshot env rank self w) = Inr self' \<and> exc_info self' = Some e
            \<and> wait self' = Inl (RuntimeError_async_take e) \<and> is_done self'))
   \<and> ((\<exists>u. fst (commit_body env rank w) = Inr u) \<and> exc_info self = None \<longrightarrow>
        (\<forall>e. ReportError e \<notin> set (events_of (complete_snapshot env rank self) w))
      \<and> (\<exists>self'. fst (complete_snapshot env rank self w) = Inr self'
            \<and> wait self' = Inr (pending_path self) \<and> is_done self'))
   \<and> ((\<exists>e. fst (commit_body env rank w) = Inl e) \<longleftrightarrow>
          failure env SyncComplete \<noteq> None \<or> failure env Arrive \<noteq> None
          \<or> (rank = 0 \<and> failure env (SyncWrite SNAPSHOT_METADATA_FNAME) \<noteq> None)
          \<or> failure env Depart \<noteq> None)
   \<and> (\<forall>h. fst (async_take env pg pp pr pk path app_state replicated w0) = Inr h
          \<longrightarrow> exc_info h = None \<and> \<not> is_done h)"
proof -
  let ?c = "complete_snapshot env rank self"
  obtain r w1 es where c: "commit_body env rank w = (r, w1)" and t: "trace w1 = trace w @ es"
    and l: "list_all (\<lambda>e. e = SyncComplete \<or> e = Arrive \<or> e = Depart \<or> e = SyncWrite SNAPSHOT_METADATA_FNAME) es"
    and f: "(\<exists>e. r = Inl e) \<longleftrightarrow>
            failure env SyncComplete \<noteq> None \<or> failure env Arrive \<noteq> None
            \<or> (rank = 0 \<and> failure env (SyncWrite SNAPSHOT_METADATA_FNAME) \<noteq> None)
            \<or> failure env Depart \<noteq> None"
    and x: "\<forall>e. r = Inl e \<longrightarrow> (\<exists>msg ev. e = External msg \<and> failure env ev = Some msg \<and> es \<noteq> [] \<and> last es = ev)"
    using commit_body_run [of env rank w] by (elim exE conjE) (rule that; assumption)
  have nr: "\<And>e. ReportError e \<notin> set es" using l by (auto simp: list_all_iff)
  have A: "\<And>e. fst (commit_body env rank w) = Inl e \<Longrightarrow>
        ReportError e \<in> set (events_of ?c w)
      \<and> (\<exists>msg. e = External msg)
      \<and> (\<exists>self'. fst (?c w) = Inr self' \<and> exc_info self' = Some e
            \<and> wait self' = Inl (RuntimeError_async_take e) \<and> is_done self')"
  proof -
    fix e assume "fst (commit_body env rank w) = Inl e"
    then have r: "commit_body env rank w = (Inl e, w1)" using c by simp
    note cs = complete_snapshot_Inl [OF r, of self]
    have ev: "events_of ?c w = es @ [ReportError e, LogWarning (AsyncTakeException e), SyncClose, EventLoopClose]"
      using events_of_eq [of ?c w] cs t by simp
    have m: "\<exists>msg. e = External msg" using x r c by auto
    show "ReportError e \<in> set (events_of ?c w)
      \<and> (\<exists>msg. e = External msg)
      \<and> (\<exists>self'. fst (?c w) = Inr self' \<and> exc_info self' = Some e
            \<and> wait self' = Inl (RuntimeError_async_take e) \<and> is_done self')"
      using ev m cs by (simp add: wait_def is_done_def)
  qed
  have B: "(\<exists>u. fst (commit_body env rank w) = Inr u) \<and> exc_info self = None \<Longrightarrow>
        (\<forall>e. ReportError e \<notin> set (events_of ?c w))
      \<and> (\<exists>self'. fst (?c w) = Inr self' \<and> wait self' = Inr (pending_path self) \<and> is_done self')"
  proof -
    assume a: "(\<exists>u. fst (commit_body env rank w) = Inr u) \<and> exc_info self = None"
    then obtain u where r: "commit_body env rank w = (Inr u, w1)" using c by auto
    note cs = complete_snapshot_Inr [OF r, of self]
    have ev: "events_of ?c w = es @ [SyncClose, EventLoopClose]"
      using events_of_eq [of ?c w] cs t by simp
    show ?thesis using ev nr cs a by (simp add: wait_def is_done_def)
  qed
  have C: "(\<exists>e. fst (commit_body env rank w) = Inl e) \<longleftrightarrow>
          failure env SyncComplete \<noteq> None \<or> failure env Arrive \<noteq> None
          \<or> (rank = 0 \<and> failure env (SyncWrite SNAPSHOT_METADATA_FNAME) \<noteq> None)
          \<or> failure env Depart \<noteq> None"
    using f c by simp
  have D: "\<And>h. fst (async_take env pg pp pr pk path app_state replicated w0) = Inr h
          \<Longrightarrow> exc_info h = None \<and> \<not> is_done h"
    using async_take_run [of env pg pp pr pk path app_state replicated w0]
    by (auto simp: is_done_def)
  show ?thesis
    apply (intro conjI allI impI)
          apply (rule A [THEN conjunct1], assumption)
         apply (rule A [THEN conjunct2, THEN conjunct1], assumption)
        apply (rule A [THEN conjunct2, THEN conjunct2], assumption)
       apply (rule B [THEN conjunct1, THEN spec], assumption)
      apply (rule B [THEN conjunct2], assumption)
     apply (rule C)
    apply (rule D [THEN conjunct1], assumption)
    apply (rule D [THEN conjunct2], assumption)
    done
qed

text \<open>
  The leader's metadata write fails with \<open>quota exceeded\<close>: the error is reported, kept
  and raised by \<^verbatim>\<open>wait\<close>.
\<close>

theorem C5_async_commit_witness:
  "ReportError (External ''quota exceeded'')
     \<in> set (events_of (complete_snapshot
         (example_env\<lparr>failure := (\<lambda>ev. if ev = SyncWrite ''.snapshot_metadata''
                                        then Some ''quota exceeded'' else None)\<rparr>)
         0 \<lparr>pending_path = ''/tmp/snap'', exc_info = None, done_flag = False\<rparr>) example_world)
   \<and> (\<exists>self'. fst (complete_snapshot
         (example_env\<lparr>failure := (\<lambda>ev. if ev = SyncWrite ''.snapshot_metadata''
                                        then Some ''quota exceeded'' else None)\<rparr>)
         0 \<lparr>pending_path = ''/tmp/snap'', exc_info = None, done_flag = False\<rparr> example_world) = Inr self'
         \<and> exc_info self' = Some (External ''quota exceeded'')
         \<and> wait self' = Inl (RuntimeError_async_take (External ''quota exceeded''))
         \<and> is_done self')"
proof -
  let ?env = "example_env\<lparr>failure := (\<lambda>ev. if ev = SyncWrite ''.snapshot_metadata''
                                        then Some ''quota exceeded'' else None)\<rparr>"
  have h: "fst (commit_body ?env 0 example_world) = Inl (External ''quota exceeded'')"
    by (simp add: commit_body_def run_defs)
  note T = C5_async_commit [where env = ?env and rank = 0 and w = example_world
      and self = "\<lparr>pending_path = ''/tmp/snap'', exc_info = None, done_flag = False\<rparr>",
      THEN conjunct1, THEN spec, THEN mp, OF h]
  show ?thesis by (rule conjI [OF T [THEN conjunct1] T [THEN conjunct2, THEN conjunct2]])
qed

lemma py_int_0: "py_int ''0'' = Some 0"
  by (simp add: py_int_def strip_def is_space_def parse_digits_def is_digit_def digit_val_def)

text \<open>
  Claim C9 (refuted on the code). \<^verbatim>\<open>read_object\<close> on a path that resolves to a
  \<^verbatim>\<open>PrimitiveEntry\<close> returns the value after it has created an event loop and a storage
  plug-in, and closes neither: the run ends with \<open>NewEventLoop\<close>, \<open>OpenStorage\<close>. And when
  \<^verbatim>\<open>sync_complete\<close> re-raises a write failure inside \<^verbatim>\<open>take\<close>, the run ends with
  \<open>SyncComplete\<close>: \<^verbatim>\<open>take\<close> has no \<^verbatim>\<open>finally\<close>, so \<^verbatim>\<open>sync_close\<close> and \<^verbatim>\<open>close\<close> are
  not called. Only \<^verbatim>\<open>_complete_snapshot\<close> closes both on every path.
\<close>

theorem C9_not_closed_on_every_path:
  "read_object example_env ''/tmp/snap'' ''0/model/step'' False example_world =
     (Inr (PrimitiveValue ''3''),
      \<lparr>trace = [NewEventLoop, OpenStorage ''/tmp/snap'', SyncRead ''.snapshot_metadata'', SyncClose,
                EventLoopClose, LogWarning ObjOutNotInPlace, NewEventLoop, OpenStorage ''/tmp/snap''],
       rng = [7], cached_metadata = Some example_metadata\<rparr>)
   \<and> take (example_env\<lparr>failure := (\<lambda>ev. if ev = SyncComplete then Some ''write failed'' else None)\<rparr>)
        \<lparr>get_rank = 0, get_world_size = 1\<rparr> [''/tmp/snap''] [[]] [[''model'']]
        ''/tmp/snap'' [(''model'', PlainStateful)] [] example_world =
     (Inl (External ''write failed''),
      \<lparr>trace = [NewEventLoop, BroadcastObjectList, AllGatherObject, OpenStorage ''/tmp/snap'',
                AllGatherObject, StateDict ''model'', Barrier,
                AllGatherObject, BroadcastObjectList, PartitionWriteReqs, AllGatherObject,
                GetProcessMemoryBudget, SyncExecuteWriteReqs, SyncComplete],
       rng = [1, 7], cached_metadata = None\<rparr>)"
proof -
  have s: "split_once ''0/model/step'' = Some (''0'', ''model/step'')" by simp
  have a: "read_object example_env ''/tmp/snap'' ''0/model/step'' False example_world =
     (Inr (PrimitiveValue ''3''),
      \<lparr>trace = [NewEventLoop, OpenStorage ''/tmp/snap'', SyncRead ''.snapshot_metadata'', SyncClose,
                EventLoopClose, LogWarning ObjOutNotInPlace, NewEventLoop, OpenStorage ''/tmp/snap''],
       rng = [7], cached_metadata = Some example_metadata\<rparr>)"
    unfolding read_object_def s
    by (simp add: py_int_0 metadata_def read_snapshot_metadata_def set_cached_metadata_def
        read_entry_def example_manifest_for_rank_def run_defs)
  have b: "take (example_env\<lparr>failure := (\<lambda>ev. if ev = SyncComplete then Some ''write failed'' else None)\<rparr>)
        \<lparr>get_rank = 0, get_world_size = 1\<rparr> [''/tmp/snap''] [[]] [[''model'']]
        ''/tmp/snap'' [(''model'', PlainStateful)] [] example_world =
     (Inl (External ''write failed''),
      \<lparr>trace = [NewEventLoop, BroadcastObjectList, AllGatherObject, OpenStorage ''/tmp/snap'',
                AllGatherObject, StateDict ''model'', Barrier,
                AllGatherObject, BroadcastObjectList, PartitionWriteReqs, AllGatherObject,
                GetProcessMemoryBudget, SyncExecuteWriteReqs, SyncComplete],
       rng = [1, 7], cached_metadata = None\<rparr>)"
    by (simp add: run_defs take_def coalesce_path_and_replicated_def take_impl_def pop_rng_state_def
      gather_keys_def infer_replicated_def coalesce_replicated_def)
  show ?thesis by (rule conjI [OF a b])
qed

subsection \<open>The state of the random number generators\<close>

lemma rng_bind:
  "rng (snd (m w)) = rng w \<Longrightarrow> (\<And>x w1. rng (snd (f x w1)) = rng w1) \<Longrightarrow> rng (snd (bind m f w)) = rng w"
  by (cases "m w") (auto simp: bind_def split: sum.splits)

lemma rng_emit: "rng (snd (emit ev w)) = rng w"
  by (simp add: emit_def)

lemma rng_call: "rng (snd (call env ev w)) = rng w"
  by (simp add: call_def split: option.splits)

lemma rng_return: "rng (snd (return x w)) = rng w"
  by (simp add: return_def)

lemma rng_coalesce:
  "rng (snd (coalesce_path_and_replicated pg pp pr path app_state replicated w)) = rng w"
  using coalesce_run [of pg pp pr path app_state replicated w] by auto

lemma rng_take_impl:
  assumes "pop_rng_state app_state0 = Inr (Some (rk, s), app_state)"
  shows "rng (snd (take_impl env pg pk app_state0 w)) = rng w"
  using take_impl_Some [OF assms, of env pg pk w] by auto

lemma rng_commit_tail:
  "rng (snd (bind (call env SyncComplete) (\<lambda>_.
          bind (emit Barrier) (\<lambda>_.
          bind (if get_rank pg = 0 then write_snapshot_metadata env else return ()) (\<lambda>_.
          bind (emit SyncClose) (\<lambda>_.
          bind (emit EventLoopClose) (\<lambda>_.
          return p))))) w)) = rng w"
  by (intro rng_bind rng_call rng_emit rng_return)
     (simp add: write_snapshot_metadata_def rng_call rng_return)

lemma rng_take:
  assumes "pop_rng_state app_state0 = Inr (Some (rk, s), app_state)"
  shows "rng (snd (take env pg pp pr pk path app_state0 replicated w)) = rng w"
proof (cases "validate_app_state app_state0")
  case (Inl e)
  then show ?thesis by (simp add: take_def raise_def)
next
  case (Inr u)
  have eq: "take env pg pp pr pk path app_state0 replicated =
          bind (emit NewEventLoop) (\<lambda>_.
          bind (coalesce_path_and_replicated pg pp pr path app_state0 replicated)
            (\<lambda>(path', coalesced_replicated).
          bind (emit (OpenStorage path')) (\<lambda>_.
          bind (take_impl env pg pk app_state0) (\<lambda>_.
          bind (call env SyncComplete) (\<lambda>_.
          bind (emit Barrier) (\<lambda>_.
          bind (if get_rank pg = 0 then write_snapshot_metadata env else return ()) (\<lambda>_.
          bind (emit SyncClose) (\<lambda>_.
          bind (emit EventLoopClose) (\<lambda>_.
          return path')))))))))"
    using Inr by (simp add: take_def)
  show ?thesis
    unfolding eq
  proof (intro rng_bind rng_emit rng_coalesce)
    fix x :: unit and w1 :: world and x' :: "path \<times> string set" and w2 :: world
    obtain p c where x': "x' = (p, c)" by (cases x')
    show "rng (snd ((case x' of (path', coalesced_replicated) \<Rightarrow>
          bind (emit (OpenStorage path')) (\<lambda>_.
          bind (take_impl env pg pk app_state0) (\<lambda>_.
          bind (call env SyncComplete) (\<lambda>_.
          bind (emit Barrier) (\<lambda>_.
          bind (if get_rank pg = 0 then write_snapshot_metadata env else return ()) (\<lambda>_.
          bind (emit SyncClose) (\<lambda>_.
          bind (emit EventLoopClose) (\<lambda>_.
          return path')))))))) w2)) = rng w2"
      unfolding x' prod.case
      by (intro rng_bind rng_emit rng_take_impl [OF assms] rng_commit_tail)
  qed
qed

lemma restore_Some_run:
  assumes v: "validate_app_state app_state0 = Inr ()"
      and p: "pop_rng_state app_state0 = Inr (Some (rk, s), app_state)"
      and f1: "failure env (SyncRead SNAPSHOT_METADATA_FNAME) = None"
      and f2: "failure env SyncExecuteReadReqs = None"
  shows "\<exists>w' es. restore env pg pk self_path app_state0 w = (Inr (), w') \<and> trace w' = trace w @ es
      \<and> filter key_step es =
           concat (map (\<lambda>k. (if k \<in> set (dict_keys app_state) then [LoadStateDict k] else []) @ [Barrier])
                       (gather_keys pk (get_rank pg) (dict_keys app_state)))
           @ [LoadStateDict rk]
      \<and> rng w' = stored_rng env"
proof -
  let ?G = "gather_keys pk (get_rank pg) (dict_keys app_state)"
  let ?w0 = "w\<lparr>trace := trace w @ [NewEventLoop, OpenStorage self_path, AllGatherObject]\<rparr>"
  have s: "isinstance_RNGState s" using pop_rng_state_Some [OF p] by simp
  obtain w2 es2 where l: "restore_loop env self_path app_state ?G ?w0 = (Inr (), w2)"
    and t2: "trace w2 = trace ?w0 @ es2"
    and k2: "filter key_step es2 =
       concat (map (\<lambda>k. (if k \<in> set (dict_keys app_state) then [LoadStateDict k] else []) @ [Barrier]) ?G)"
    using restore_loop_trace [OF f1 f2, of self_path app_state ?G ?w0] by blast
  obtain w3 es3 where ls: "load_stateful env self_path rk (Some s) w2 = (Inr (), w3)"
    and t3: "trace w3 = trace w2 @ es3" and k3: "filter key_step es3 = [LoadStateDict rk]"
    and r3: "rng w3 = stored_rng env"
    using load_stateful_ok [OF f1 f2, of self_path rk s w2] s by blast
  let ?w4 = "w3\<lparr>trace := trace w3 @ [SyncClose, EventLoopClose]\<rparr>"
  have "restore env pg pk self_path app_state0 w = (Inr (), ?w4)"
    using v p l ls by (simp add: restore_def bind_def emit_def)
  moreover have "trace ?w4 = trace w @ ([NewEventLoop, OpenStorage self_path, AllGatherObject] @ es2 @ es3
                     @ [SyncClose, EventLoopClose])"
    using t2 t3 by simp
  moreover have "filter key_step ([NewEventLoop, OpenStorage self_path, AllGatherObject] @ es2 @ es3
                     @ [SyncClose, EventLoopClose]) =
       concat (map (\<lambda>k. (if k \<in> set (dict_keys app_state) then [LoadStateDict k] else []) @ [Barrier]) ?G)
           @ [LoadStateDict rk]"
    using k2 k3 by simp
  moreover have "rng ?w4 = stored_rng env" using r3 by simp
  ultimately show ?thesis by blast
qed

text \<open>
  Claim C4. When \<^verbatim>\<open>app_state\<close> holds an \<^verbatim>\<open>RNGState\<close> under \<open>rk\<close>, \<^verbatim>\<open>_take_impl\<close> calls its
  \<^verbatim>\<open>state_dict\<close> first, then walks the global keys, calling \<^verbatim>\<open>state_dict\<close> on the other
  components only, then calls \<^verbatim>\<open>load_state_dict\<close> on the \<^verbatim>\<open>RNGState\<close> with the dict it
  captured, and only then classifies, partitions and schedules writes; the state of the
  generators after \<^verbatim>\<open>_take_impl\<close>, and after \<^verbatim>\<open>take\<close> on every exit path, is the state
  before, whatever the other components' \<^verbatim>\<open>state_dict\<close> did to it. In \<^verbatim>\<open>restore\<close> (when
  no read fails) the \<^verbatim>\<open>load_state_dict\<close> of the \<^verbatim>\<open>RNGState\<close> is the last one, after the
  loop over the global keys, and leaves the generators in the state the snapshot holds;
  so when the snapshot holds the state \<^verbatim>\<open>take\<close> captured, \<^verbatim>\<open>restore\<close> right after
  \<^verbatim>\<open>take\<close> leaves the generators as \<^verbatim>\<open>take\<close> left them.
\<close>

theorem C4_rng_state:
  assumes "pop_rng_state app_state0 = Inr (Some (rk, s), app_state)"
  shows "isinstance_RNGState s \<and> (rk, s) \<in> set app_state0 \<and> rk \<notin> set (dict_keys app_state)
       \<and> events_of (take_impl env pg pk app_state0) w =
           [StateDict rk, AllGatherObject]
           @ concat (map (\<lambda>k. (if k \<in> set (dict_keys app_state) then [StateDict k] else []) @ [Barrier])
                         (gather_keys pk (get_rank pg) (dict_keys app_state)))
           @ [LoadStateDict rk, AllGatherObject, BroadcastObjectList, PartitionWriteReqs, AllGatherObject,
              GetProcessMemoryBudget, SyncExecuteWriteReqs]
       \<and> fst (take_impl env pg pk app_state0 w) = Inr (Some (rng w))
       \<and> rng (snd (take_impl env pg pk app_state0 w)) = rng w
       \<and> rng (snd (take env pg pp pr pk path app_state0 replicated w)) = rng w
       \<and> (validate_app_state app_state0 = Inr ()
            \<and> failure env (SyncRead SNAPSHOT_METADATA_FNAME) = None
            \<and> failure env SyncExecuteReadReqs = None
          \<longrightarrow> fst (restore env pg pk self_path app_state0 w) = Inr ()
            \<and> filter key_step (events_of (restore env pg pk self_path app_state0) w) =
                 concat (map (\<lambda>k. (if k \<in> set (dict_keys app_state) then [LoadStateDict k] else [])
                                   @ [Barrier])
                             (gather_keys pk (get_rank pg) (dict_keys app_state)))
                 @ [LoadStateDict rk]
            \<and> rng (snd (restore env pg pk self_path app_state0 w)) = stored_rng env
            \<and> (stored_rng env = rng w \<longrightarrow>
                 rng (snd (restore env pg pk self_path app_state0
                            (snd (take env pg pp pr pk path app_state0 replicated w))))
                 = rng (snd (take env pg pp pr pk path app_state0 replicated w))))"
proof -
  let ?ti = "take_impl env pg pk app_state0"
  let ?take = "take env pg pp pr pk path app_state0 replicated"
  let ?restore = "restore env pg pk self_path app_state0"
  note P = pop_rng_state_Some [OF assms]
  obtain w' where ti: "?ti w = (Inr (Some (rng w)), w')"
    and tt: "trace w' = trace w @ [StateDict rk, AllGatherObject]
       @ concat (map (\<lambda>k. (if k \<in> set (dict_keys app_state) then [StateDict k] else []) @ [Barrier])
                     (gather_keys pk (get_rank pg) (dict_keys app_state)))
       @ [LoadStateDict rk, AllGatherObject, BroadcastObjectList, PartitionWriteReqs, AllGatherObject,
          GetProcessMemoryBudget, SyncExecuteWriteReqs]"
    and tr: "rng w' = rng w"
    using take_impl_Some [OF assms, of env pg pk w] by blast
  have e1: "events_of ?ti w = [StateDict rk, AllGatherObject]
       @ concat (map (\<lambda>k. (if k \<in> set (dict_keys app_state) then [StateDict k] else []) @ [Barrier])
                     (gather_keys pk (get_rank pg) (dict_keys app_state)))
       @ [LoadStateDict rk, AllGatherObject, BroadcastObjectList, PartitionWriteReqs, AllGatherObject,
          GetProcessMemoryBudget, SyncExecuteWriteReqs]"
    using events_of_eq [of ?ti w] ti tt by simp
  have e2: "fst (?ti w) = Inr (Some (rng w))" using ti by simp
  have e3: "rng (snd (?ti w)) = rng w" using ti tr by simp
  have e4: "rng (snd (?take w)) = rng w" by (rule rng_take [OF assms])
  have R: "validate_app_state app_state0 = Inr ()
            \<and> failure env (SyncRead SNAPSHOT_METADATA_FNAME) = None
            \<and> failure env SyncExecuteReadReqs = None
          \<Longrightarrow> fst (?restore w) = Inr ()
            \<and> filter key_step (events_of ?restore w) =
                 concat (map (\<lambda>k. (if k \<in> set (dict_keys app_state) then [LoadStateDict k] else [])
                                   @ [Barrier])
                             (gather_keys pk (get_rank pg) (dict_keys app_state)))
                 @ [LoadStateDict rk]
            \<and> rng (snd (?restore w)) = stored_rng env
            \<and> (stored_rng env = rng w \<longrightarrow>
                 rng (snd (?restore (snd (?take w)))) = rng (snd (?take w)))"
  proof -
    assume a: "validate_app_state app_state0 = Inr ()
            \<and> failure env (SyncRead SNAPSHOT_METADATA_FNAME) = None
            \<and> failure env SyncExecuteReadReqs = None"
    have av: "validate_app_state app_state0 = Inr ()"
      and af1: "failure env (SyncRead SNAPSHOT_METADATA_FNAME) = None"
      and af2: "failure env SyncExecuteReadReqs = None"
      using a by simp_all
    obtain wr es where r: "?restore w = (Inr (), wr)" and rt: "trace wr = trace w @ es"
      and rk: "filter key_step es =
           concat (map (\<lambda>k. (if k \<in> set (dict_keys app_state) then [LoadStateDict k] else []) @ [Barrier])
                       (gather_keys pk (get_rank pg) (dict_keys app_state)))
           @ [LoadStateDict rk]"
      and rr: "rng wr = stored_rng env"
      using restore_Some_run [OF av assms af1 af2, of pg pk self_path w] by blast
    obtain wr2 es2 where r2: "?restore (snd (?take w)) = (Inr (), wr2)"
      and rr2: "rng wr2 = stored_rng env"
      using restore_Some_run [OF av assms af1 af2, of pg pk self_path "snd (?take w)"] by blast
    have ev: "events_of ?restore w = es" using events_of_eq [of ?restore w es] r rt by simp
    have x1: "fst (?restore w) = Inr ()" using r by simp
    have x3: "rng (snd (?restore w)) = stored_rng env" using r rr by simp
    have x4: "stored_rng env = rng w \<longrightarrow> rng (snd (?restore (snd (?take w)))) = rng (snd (?take w))"
      using r2 rr2 e4 by simp
    show ?thesis unfolding ev using x1 rk x3 x4 by blast
  qed
  show ?thesis
    apply (intro conjI)
           apply (rule P [THEN conjunct1])
          apply (rule P [THEN conjunct2, THEN conjunct2, THEN conjunct1])
         apply (rule P [THEN conjunct2, THEN conjunct2, THEN conjunct2])
        apply (rule e1)
       apply (rule e2)
      apply (rule e3)
     apply (rule e4)
    apply (rule impI)
    apply (erule R)
    done
qed

text \<open>
  A model whose \<^verbatim>\<open>state_dict\<close> and \<^verbatim>\<open>load_state_dict\<close> both disturb the generators, and
  an \<^verbatim>\<open>RNGState\<close>: the generators are in state \<open>[7]\<close> before and after.
\<close>

theorem C4_rng_state_witness:
  "fst (take_impl example_env \<lparr>get_rank = 0, get_world_size = 1\<rparr> [[''model'']]
          [(''model'', PlainStateful), (''rng'', RNGState)] example_world) = Inr (Some [7])
   \<and> rng (snd (take example_env \<lparr>get_rank = 0, get_world_size = 1\<rparr> [''/tmp/snap''] [[]] [[''model'']]
                ''/tmp/snap'' [(''model'', PlainStateful), (''rng'', RNGState)] [] example_world)) = [7]
   \<and> rng (snd (restore example_env \<lparr>get_rank = 0, get_world_size = 1\<rparr> [[''model'']] ''/tmp/snap''
                [(''model'', PlainStateful), (''rng'', RNGState)]
                (snd (take example_env \<lparr>get_rank = 0, get_world_size = 1\<rparr> [''/tmp/snap''] [[]] [[''model'']]
                        ''/tmp/snap'' [(''model'', PlainStateful), (''rng'', RNGState)] [] example_world))))
     = rng (snd (take example_env \<lparr>get_rank = 0, get_world_size = 1\<rparr> [''/tmp/snap''] [[]] [[''model'']]
                ''/tmp/snap'' [(''model'', PlainStateful), (''rng'', RNGState)] [] example_world))"
proof -
  let ?a0 = "[(''model'', PlainStateful), (''rng'', RNGState)]"
  have h: "pop_rng_state ?a0 = Inr (Some (''rng'', RNGState), [(''model'', PlainStateful)])"
    by (simp add: pop_rng_state_def dict_del_def)
  note T = C4_rng_state [OF h, where env = example_env and w = example_world
      and pg = "\<lparr>get_rank = 0, get_world_size = 1\<rparr>" and pp = "[''/tmp/snap'']" and pk = "[[''model'']]"
      and pr = "[[]]" and path = "''/tmp/snap''" and replicated = "[]" and self_path = "''/tmp/snap''"]
  note T5 = T [THEN conjunct2, THEN conjunct2, THEN conjunct2, THEN conjunct2, THEN conjunct1]
  note T7 = T [THEN conjunct2, THEN conjunct2, THEN conjunct2, THEN conjunct2, THEN conjunct2,
      THEN conjunct2, THEN conjunct1]
  note T8 = T [THEN conjunct2, THEN conjunct2, THEN conjunct2, THEN conjunct2, THEN conjunct2,
      THEN conjunct2, THEN conjunct2]
  have r: "rng example_world = [7]" by (simp add: example_world_def)
  have v: "validate_app_state ?a0 = Inr ()
            \<and> failure example_env (SyncRead SNAPSHOT_METADATA_FNAME) = None
            \<and> failure example_env SyncExecuteReadReqs = None"
    by (simp add: example_env_def)
  have sr: "stored_rng example_env = rng example_world"
    by (simp add: example_env_def example_world_def)
  note T9 = T8 [THEN mp, OF v, THEN conjunct2, THEN conjunct2, THEN conjunct2, THEN mp, OF sr]
  show ?thesis using T5 [unfolded r] T7 [unfolded r] T9 by (intro conjI)
qed

subsection \<open>Reading one object\<close>

lemma metadata_run:
  assumes "metadata env self_path w = (Inr md, w1)"
  shows "cached_metadata w1 = Some md \<and> rng w1 = rng w
       \<and> (\<exists>es. trace w1 = trace w @ es
             \<and> list_all (\<lambda>ev. ev = NewEventLoop \<or> ev = OpenStorage self_path
                               \<or> ev = SyncRead SNAPSHOT_METADATA_FNAME \<or> ev = SyncClose
                               \<or> ev = EventLoopClose) es)
       \<and> metadata env self_path w1 = (Inr md, w1)"
proof (cases "cached_metadata w")
  case None
  show ?thesis
  proof (cases "failure env (SyncRead SNAPSHOT_METADATA_FNAME)")
    case fn: None
    have "metadata env self_path w =
            (Inr (stored_metadata env),
             w\<lparr>trace := trace w @ [NewEventLoop, OpenStorage self_path, SyncRead SNAPSHOT_METADATA_FNAME,
                                     SyncClose, EventLoopClose],
                cached_metadata := Some (stored_metadata env)\<rparr>)"
      using None fn
      by (simp add: metadata_def bind_def emit_def return_def read_snapshot_metadata_def call_def
          set_cached_metadata_def)
    then have m: "md = stored_metadata env"
      and w1: "w1 = w\<lparr>trace := trace w @ [NewEventLoop, OpenStorage self_path,
                                            SyncRead SNAPSHOT_METADATA_FNAME, SyncClose, EventLoopClose],
                       cached_metadata := Some (stored_metadata env)\<rparr>"
      using assms by simp_all
    show ?thesis unfolding m w1 by (simp add: metadata_def return_def)
  next
    case (Some msg)
    then have "fst (metadata env self_path w) = Inl (External msg)"
      using None
      by (simp add: metadata_def bind_def emit_def return_def read_snapshot_metadata_def call_def)
    then show ?thesis using assms by simp
  qed
next
  case (Some md')
  then have "metadata env self_path w = (Inr md', w)" by (simp add: metadata_def return_def)
  then have "md = md'" "w1 = w" using assms by simp_all
  then show ?thesis using Some by (simp add: metadata_def return_def)
qed

lemma read_entry_run:
  "\<exists>r w' es. read_entry env self_path in_place entry w = (r, w') \<and> trace w' = trace w @ es
      \<and> r \<noteq> Inl (RuntimeError_path_not_in_manifest path)
      \<and> (\<forall>v. entry = PrimitiveEntry v \<longrightarrow> r = Inr (PrimitiveValue v) \<and> SyncExecuteReadReqs \<notin> set es)"
  by (cases entry; cases in_place; cases "failure env SyncExecuteReadReqs")
     (simp_all add: read_entry_def bind_def emit_def return_def call_def)

text \<open>
  Claim C8, as amended. For a path \<open>rank/unranked\<close> whose rank part \<^verbatim>\<open>int()\<close> accepts, and
  when the metadata is cached or can be read, \<^verbatim>\<open>read_object\<close> raises the manifest-lookup
  \<^verbatim>\<open>RuntimeError\<close> iff the unranked part is absent from both the manifest projected for
  that rank and the merged sharded-tensor entries. That failure leaves the snapshot as the
  \<^verbatim>\<open>metadata\<close> property left it: the metadata is cached and is what it was, and nothing
  but the read of the metadata document has touched the storage. When the path resolves to
  a \<^verbatim>\<open>PrimitiveEntry\<close>, its value is returned and no read request is handed to the
  scheduler.
\<close>

theorem C8_read_object:
  assumes "split_once path = Some (rank_str, unranked_path)"
      and "py_int rank_str = Some rank"
      and "metadata env self_path w = (Inr md, w1)"
      and "get_manifest_for_rank env md rank = (mf, merged)"
  shows "(fst (read_object env self_path path in_place w) = Inl (RuntimeError_path_not_in_manifest path)
            \<longleftrightarrow> merged unranked_path = None \<and> mf unranked_path = None)
       \<and> (merged unranked_path = None \<and> mf unranked_path = None
            \<longrightarrow> snd (read_object env self_path path in_place w) = w1
              \<and> cached_metadata w1 = Some md
              \<and> metadata env self_path w1 = (Inr md, w1)
              \<and> list_all (\<lambda>ev. ev = NewEventLoop \<or> ev = OpenStorage self_path
                                \<or> ev = SyncRead SNAPSHOT_METADATA_FNAME \<or> ev = SyncClose
                                \<or> ev = EventLoopClose)
                   (events_of (read_object env self_path path in_place) w))
       \<and> (\<forall>v. merged unranked_path = Some (PrimitiveEntry v)
                \<or> (merged unranked_path = None
                    \<and> mf unranked_path = Some (PrimitiveEntry v))
            \<longrightarrow> fst (read_object env self_path path in_place w) = Inr (PrimitiveValue v)
              \<and> SyncExecuteReadReqs \<notin> set (events_of (read_object env self_path path in_place) w))"
proof -
  let ?ro = "read_object env self_path path in_place"
  let ?lookup = "case merged unranked_path of Some e \<Rightarrow> Some e | None \<Rightarrow> mf unranked_path"
  note M = metadata_run [OF assms(3)]
  obtain esm where tm: "trace w1 = trace w @ esm"
    and lm: "list_all (\<lambda>ev. ev = NewEventLoop \<or> ev = OpenStorage self_path
                               \<or> ev = SyncRead SNAPSHOT_METADATA_FNAME \<or> ev = SyncClose
                               \<or> ev = EventLoopClose) esm"
    using M by blast
  have ro: "?ro w = (case ?lookup of
                       None \<Rightarrow> (Inl (RuntimeError_path_not_in_manifest path), w1)
                     | Some entry \<Rightarrow> read_entry env self_path in_place entry w1)"
    using assms by (simp add: read_object_def bind_def raise_def split: option.splits)
  have none_iff: "?lookup = None \<longleftrightarrow> merged unranked_path = None \<and> mf unranked_path = None"
    by (simp split: option.splits)
  have A: "fst (?ro w) = Inl (RuntimeError_path_not_in_manifest path)
            \<longleftrightarrow> merged unranked_path = None \<and> mf unranked_path = None"
  proof (cases ?lookup)
    case None
    then show ?thesis using ro none_iff by simp
  next
    case (Some entry)
    obtain r w' where "read_entry env self_path in_place entry w1 = (r, w')"
      and "r \<noteq> Inl (RuntimeError_path_not_in_manifest path)"
      using read_entry_run [of env self_path in_place entry w1 path] by blast
    then show ?thesis using ro Some none_iff by simp
  qed
  have B: "merged unranked_path = None \<and> mf unranked_path = None
            \<Longrightarrow> snd (?ro w) = w1
              \<and> cached_metadata w1 = Some md
              \<and> metadata env self_path w1 = (Inr md, w1)
              \<and> list_all (\<lambda>ev. ev = NewEventLoop \<or> ev = OpenStorage self_path
                                \<or> ev = SyncRead SNAPSHOT_METADATA_FNAME \<or> ev = SyncClose
                                \<or> ev = EventLoopClose) (events_of ?ro w)"
  proof -
    assume a: "merged unranked_path = None \<and> mf unranked_path = None"
    then have r: "?ro w = (Inl (RuntimeError_path_not_in_manifest path), w1)" using ro by simp
    have "events_of ?ro w = esm" using events_of_eq [of ?ro w esm] r tm by simp
    then show ?thesis using r M lm by simp
  qed
  have C: "\<And>v. merged unranked_path = Some (PrimitiveEntry v)
                \<or> (merged unranked_path = None
                    \<and> mf unranked_path = Some (PrimitiveEntry v))
            \<Longrightarrow> fst (?ro w) = Inr (PrimitiveValue v)
              \<and> SyncExecuteReadReqs \<notin> set (events_of ?ro w)"
  proof -
    fix v
    assume a: "merged unranked_path = Some (PrimitiveEntry v)
                \<or> (merged unranked_path = None
                    \<and> mf unranked_path = Some (PrimitiveEntry v))"
    then have l: "?lookup = Some (PrimitiveEntry v)" by auto
    obtain r w' es where re: "read_entry env self_path in_place (PrimitiveEntry v) w1 = (r, w')"
      and t: "trace w' = trace w1 @ es" and rv: "r = Inr (PrimitiveValue v)"
      and n: "SyncExecuteReadReqs \<notin> set es"
      using read_entry_run [of env self_path in_place "PrimitiveEntry v" w1 path] by blast
    have nm: "SyncExecuteReadReqs \<notin> set esm" using lm by (auto simp: list_all_iff)
    have rw: "?ro w = (r, w')" using ro l re by simp
    then have "events_of ?ro w = esm @ es" using events_of_eq [of ?ro w "esm @ es"] t tm by simp
    with rw show "fst (?ro w) = Inr (PrimitiveValue v)
              \<and> SyncExecuteReadReqs \<notin> set (events_of ?ro w)"
      using rv n nm by simp
  qed
  show ?thesis
    apply (intro conjI allI impI)
         apply (rule A)
        apply (rule B [THEN conjunct1], assumption)
       apply (rule B [THEN conjunct2, THEN conjunct1], assumption)
      apply (rule B [THEN conjunct2, THEN conjunct2, THEN conjunct1], assumption)
     apply (rule B [THEN conjunct2, THEN conjunct2, THEN conjunct2], assumption)
    apply (rule C [THEN conjunct1], assumption)
    apply (rule C [THEN conjunct2], assumption)
    done
qed

lemma py_int_x: "py_int ''x'' = None"
  by (simp add: py_int_def strip_def is_space_def parse_digits_def is_digit_def)

text \<open>
  Claim C8 as stated fails: \<open>x/model/step\<close> makes \<^verbatim>\<open>read_object\<close> raise (the
  \<^verbatim>\<open>ValueError\<close> of \<^verbatim>\<open>int(rank_str)\<close>) although the unranked part \<open>model/step\<close> is in
  the manifest (the example's projection is the same for every rank).
\<close>

theorem C8_malformed_rank_counterexample:
  "fst (read_object example_env ''/tmp/snap'' ''x/model/step'' False example_world) = Inl ValueError
   \<and> split_once ''x/model/step'' = Some (''x'', ''model/step'')
   \<and> fst (get_manifest_for_rank example_env example_metadata 0) ''model/step'' = Some (PrimitiveEntry ''3'')"
proof -
  have s: "split_once ''x/model/step'' = Some (''x'', ''model/step'')" by simp
  have a: "fst (read_object example_env ''/tmp/snap'' ''x/model/step'' False example_world) = Inl ValueError"
    unfolding read_object_def s by (simp add: py_int_x raise_def)
  have b: "fst (get_manifest_for_rank example_env example_metadata 0) ''model/step'' = Some (PrimitiveEntry ''3'')"
    by (simp add: example_env_def example_manifest_for_rank_def)
  show ?thesis using a s b by (intro conjI)
qed

text \<open>
  In the example snapshot, \<open>0/model/lr\<close> is absent and raises the lookup error;
  \<open>0/model/step\<close> is a primitive entry and is returned.
\<close>

theorem C8_read_object_witness:
  "fst (read_object example_env ''/tmp/snap'' ''0/model/lr'' False example_world)
     = Inl (RuntimeError_path_not_in_manifest ''0/model/lr'')
   \<and> fst (read_object example_env ''/tmp/snap'' ''0/model/step'' False example_world)
     = Inr (PrimitiveValue ''3'')"
proof -
  let ?w1 = "\<lparr>trace = [NewEventLoop, OpenStorage ''/tmp/snap'', SyncRead ''.snapshot_metadata'', SyncClose,
                EventLoopClose], rng = [7], cached_metadata = Some example_metadata\<rparr>"
  let ?man = "map_of [(''model/step'', PrimitiveEntry ''3''),
                      (''model/weight'', StoredEntry ''0/model/weight'')]"
  have s1: "split_once ''0/model/lr'' = Some (''0'', ''model/lr'')" by simp
  have s2: "split_once ''0/model/step'' = Some (''0'', ''model/step'')" by simp
  have m: "metadata example_env ''/tmp/snap'' example_world = (Inr example_metadata, ?w1)"
    by (simp add: metadata_def read_snapshot_metadata_def set_cached_metadata_def run_defs)
  have g: "get_manifest_for_rank example_env example_metadata 0 = (?man, Map.empty)"
    by (simp add: example_env_def example_manifest_for_rank_def)
  note T1 = C8_read_object [OF s1 py_int_0 m g, where in_place = False, THEN conjunct1, THEN iffD2]
  note T2 = C8_read_object [OF s2 py_int_0 m g, where in_place = False, THEN conjunct2, THEN conjunct2,
      THEN spec, THEN mp, THEN conjunct1]
  have a: "fst (read_object example_env ''/tmp/snap'' ''0/model/lr'' False example_world)
     = Inl (RuntimeError_path_not_in_manifest ''0/model/lr'')"
    by (rule T1) simp
  have b: "fst (read_object example_env ''/tmp/snap'' ''0/model/step'' False example_world)
     = Inr (PrimitiveValue ''3'')"
    by (rule T2) simp
  show ?thesis using a b by (intro conjI)
qed

subsection \<open>The caller's dict\<close>

lemma dict_copy_run:
  "dict_copy st a = (next_id st, st\<lparr>dicts := (dicts st)(next_id st := dicts st a), next_id := Suc (next_id st)\<rparr>)"
  by (simp add: dict_copy_def)

text \<open>
  Claim C10. The dict the caller passes (an existing dict \<open>a\<close> of the store) holds after
  \<^verbatim>\<open>take\<close>, \<^verbatim>\<open>async_take\<close> or \<^verbatim>\<open>restore\<close> the bindings it held before, whether the call
  raised or not, and so does every other dict that existed; the dict that
  \<^verbatim>\<open>_pop_rng_state\<close> changed is the new one made by \<^verbatim>\<open>app_state.copy()\<close>.
\<close>

theorem C10_app_state_not_mutated:
  assumes "a < next_id st"
  shows "dicts (snd (use_app_state st a)) a = dicts st a
       \<and> (\<forall>b < next_id st. dicts (snd (use_app_state st a)) b = dicts st b)
       \<and> (\<forall>c item. fst (use_app_state st a) = Inr (c, item)
            \<longrightarrow> c = next_id st \<and> c \<noteq> a
              \<and> pop_rng_state (dicts st a) = Inr (item, dicts (snd (use_app_state st a)) c))"
proof (cases "validate_app_state (dicts st a)")
  case (Inl e)
  then have "use_app_state st a = (Inl e, st)" by (simp add: use_app_state_def)
  then show ?thesis by simp
next
  case (Inr u)
  let ?c = "next_id st"
  let ?st1 = "st\<lparr>dicts := (dicts st)(?c := dicts st a), next_id := Suc ?c\<rparr>"
  have ne: "?c \<noteq> a" using assms by simp
  show ?thesis
  proof (cases "pop_rng_state (dicts st a)")
    case pl: (Inl e)
    have "use_app_state st a = (Inl e, ?st1)"
      using Inr pl by (simp add: use_app_state_def dict_copy_def pop_rng_state_at_def)
    then show ?thesis using assms by auto
  next
    case pr: (Inr x)
    obtain item d where x: "x = (item, d)" by (cases x)
    have "use_app_state st a = (Inr (?c, item), ?st1\<lparr>dicts := (dicts ?st1)(?c := d)\<rparr>)"
      using Inr pr x by (simp add: use_app_state_def dict_copy_def pop_rng_state_at_def)
    then show ?thesis using assms pr x by auto
  qed
qed

text \<open>
  The caller's dict keeps its \<open>rng\<close> entry; the copy has lost it.
\<close>

theorem C10_app_state_not_mutated_witness:
  "dicts (snd (use_app_state
        \<lparr>dicts = (\<lambda>i. [])(0 := [(''model'', PlainStateful), (''rng'', RNGState)]), next_id = 1\<rparr> 0)) 0
     = [(''model'', PlainStateful), (''rng'', RNGState)]
   \<and> dicts (snd (use_app_state
        \<lparr>dicts = (\<lambda>i. [])(0 := [(''model'', PlainStateful), (''rng'', RNGState)]), next_id = 1\<rparr> 0)) 1
     = [(''model'', PlainStateful)]"
proof -
  let ?st = "\<lparr>dicts = (\<lambda>i. [])(0 := [(''model'', PlainStateful), (''rng'', RNGState)]), next_id = 1\<rparr>"
  have h: "(0::nat) < next_id ?st" by simp
  have a: "dicts (snd (use_app_state ?st 0)) 0 = [(''model'', PlainStateful), (''rng'', RNGState)]"
    using C10_app_state_not_mutated [OF h, THEN conjunct1] by simp
  have b: "dicts (snd (use_app_state ?st 0)) 1 = [(''model'', PlainStateful)]"
    by (simp add: use_app_state_def dict_copy_def pop_rng_state_at_def pop_rng_state_def dict_del_def)
  show ?thesis using a b by (intro conjI)
qed

end
